theory Spec2Isabelle
  imports Main
begin

section \<open>Option dictionaries\<close>

text \<open>
  Python values that occur in option and parameter dictionaries of recitale: YAML
  scalars, the (x, y) pair of a dpi setting and the EXIF table of an image (tag number
  to value, in the order Pillow lists them).
\<close>

datatype pyval =
    VNone
  | VBool bool
  | VInt int
  | VStr string
  | VPair int int
  | VExif "(nat \<times> int) list"

text \<open>Python truthiness (\<open>if x:\<close>) of such a value.\<close>

fun truthy :: "pyval \<Rightarrow> bool" where
  "truthy VNone = False"
| "truthy (VBool b) = b"
| "truthy (VInt i) = (i \<noteq> 0)"
| "truthy (VStr s) = (s \<noteq> [])"
| "truthy (VPair x y) = True"
| "truthy (VExif e) = (e \<noteq> [])"

text \<open>
  A \<open>dict\<close> with string keys. Python compares dictionaries by their key/value pairs,
  whatever the insertion order, which is equality of maps.
\<close>

type_synonym 'v options = "string \<rightharpoonup> 'v"

text \<open>\<open>if k in d: del d[k]\<close>\<close>

definition del_if_in :: "string \<Rightarrow> 'v options \<Rightarrow> 'v options" where
  "del_if_in k d = (if d k \<noteq> None then d(k := None) else d)"

text \<open>
  \<open>utils.remove_superficial_options\<close>, as the value it returns: the copy of the
  argument after the seven conditional deletions, in the order of the source.
\<close>

definition remove_superficial_options :: "'v options \<Rightarrow> 'v options" where
  "remove_superficial_options options =
     (let cleaned_options = options;
          cleaned_options = del_if_in ''name'' cleaned_options;
          cleaned_options = del_if_in ''exif'' cleaned_options;
          cleaned_options = del_if_in ''text'' cleaned_options;
          cleaned_options = del_if_in ''type'' cleaned_options;
          cleaned_options = del_if_in ''size'' cleaned_options;
          cleaned_options = del_if_in ''float'' cleaned_options;
          cleaned_options = del_if_in ''resize'' cleaned_options
      in cleaned_options)"

text \<open>The keys the source deletes.\<close>

definition superficial_keys :: "string set" where
  "superficial_keys =
     {''name'', ''exif'', ''text'', ''type'', ''size'', ''float'', ''resize''}"

text \<open>
  The superficial keys as the specification lists them: the display label (\<open>name\<close>),
  the EXIF excerpt (\<open>exif\<close>), the caption text (\<open>text\<close>), the declared media type
  (\<open>type\<close>), the declared on-page size (\<open>size\<close>) and the resize hint (\<open>resize\<close>).
\<close>

definition spec_superficial_keys :: "string set" where
  "spec_superficial_keys =
     {''name'', ''exif'', ''text'', ''type'', ''size'', ''resize''}"

subsection \<open>The same function over a store of dictionaries\<close>

text \<open>
  Python passes the dictionary by reference, and \<open>del\<close> mutates the object it is
  given. To say that the caller's dictionary is left alone, dictionaries live in a
  store, a reference is an index into it, \<open>dict.copy()\<close> allocates a fresh
  dictionary and \<open>del\<close> updates the store at the reference it is given.
\<close>

type_synonym ref = nat

type_synonym 'v store = "'v options list"

definition dict_copy :: "ref \<Rightarrow> 'v store \<Rightarrow> ref \<times> 'v store" where
  "dict_copy r h = (length h, h @ [h ! r])"

definition store_del_if_in :: "string \<Rightarrow> ref \<Rightarrow> 'v store \<Rightarrow> 'v store" where
  "store_del_if_in k r h = (if (h ! r) k \<noteq> None then h[r := (h ! r)(k := None)] else h)"

definition remove_superficial_options_store :: "ref \<Rightarrow> 'v store \<Rightarrow> ref \<times> 'v store" where
  "remove_superficial_options_store options h =
     (let (cleaned_options, h) = dict_copy options h;
          h = store_del_if_in ''name'' cleaned_options h;
          h = store_del_if_in ''exif'' cleaned_options h;
          h = store_del_if_in ''text'' cleaned_options h;
          h = store_del_if_in ''type'' cleaned_options h;
          h = store_del_if_in ''size'' cleaned_options h;
          h = store_del_if_in ''float'' cleaned_options h;
          h = store_del_if_in ''resize'' cleaned_options h
      in (cleaned_options, h))"

section \<open>The world of a build\<close>

type_synonym path = string

text \<open>
  The exceptions the pipeline distinguishes. \<open>OSError\<close> stands for the class and its
  subclasses (what \<open>except OSError\<close> catches), \<open>OtherError\<close> for every exception no
  handler of the pipeline names (\<open>KeyboardInterrupt\<close> and \<open>SystemExit\<close> among them).
\<close>

datatype exn = OSError | TypeError | StructError | KeyError | OtherError string

datatype loglevel = LDebug | LInfo | LWarning | LError

text \<open>The \<open>method\<close> constants of \<open>Image.transpose\<close> that the source uses.\<close>

datatype transpose_method =
    FLIP_LEFT_RIGHT | ROTATE_180 | FLIP_TOP_BOTTOM | TRANSPOSE
  | ROTATE_270 | TRANSVERSE | ROTATE_90

datatype image_op =
    ExifTranspose
  | Transpose "transpose_method option"
  | Thumbnail int int

text \<open>
  A Pillow image, as far as the pipeline reads it: \<open>img.format\<close>, \<open>img.info["dpi"]\<close>
  when present, \<open>JpegImagePlugin.get_sampling(img)\<close>, \<open>img.getexif()\<close>, the length of
  \<open>img.info.get("icc_profile", "")\<close>, and the transformations applied to it since it
  was opened.
\<close>

record image =
  img_format :: string
  img_dpi :: "pyval option"
  img_sampling :: int
  img_exif :: "(nat \<times> int) list"
  img_icc_len :: nat
  img_ops :: "image_op list"

text \<open>
  Modelled from the spec: the fingerprint of a cache entry, of \<open>recitale/cache.py\<close>,
  which is not among the sources. It is composed of the source file's modification
  time, the effective options after superficial-key stripping, and whether and when the
  derived path currently exists.
\<close>

record fingerprint =
  fp_source :: "nat option"
  fp_options :: "pyval options"
  fp_derived :: "nat option"

text \<open>
  What the pipeline does that can be observed, in the order it does it: log records,
  \<open>Image.open\<close>, the cache queries with their answers, \<open>im.save\<close> with the image
  written and whether it succeeded, \<open>CACHE.cache_picture\<close>, \<open>subprocess.run\<close> with
  the return code, \<open>queue.put\<close>, and \<open>CACHE.cache_dump\<close>.
\<close>

datatype event =
    Log loglevel string "string list"
  | ImageOpen path
  | Check path path bool
  | Save path image bool
  | Record path path
  | Run "string list" int
  | Put "int option"
  | Flush

text \<open>
  The state a build works on: the file system (the modification time of every path
  that exists), the cache store and what \<open>cache_dump\<close> last persisted of it,
  \<open>ImageFile.MAXBLOCK\<close>, the progress queue, and the events so far. The workers of the
  pool are run one after the other on this one state: the cache store is shared by all
  of them, as the specification has it.
\<close>

record world =
  fs :: "path \<rightharpoonup> nat"
  cache :: "path \<times> path \<rightharpoonup> fingerprint"
  persisted :: "(path \<times> path \<rightharpoonup> fingerprint) option"
  maxblock :: int
  queue :: "int option list"
  events :: "event list"

text \<open>
  What \<open>im.save\<close> did: it wrote the file (the new modification time), or it raised
  and left the destination in some state.
\<close>

datatype save_result = SaveOk nat | SaveFailed exn "nat option"

text \<open>The points of \<open>main\<close> where the coordinator calls into multiprocessing.\<close>

datatype site =
    ManagerQueue | PoolCreate | ProcessStart | PoolMapScan | QueuePut | ProcessJoin
  | PoolMapRender | PoolExit

text \<open>
  Library and operating system behaviour the pipeline depends on, taken as parameters:
  \<open>Image.open\<close>, \<open>img.copy\<close>, \<open>im.thumbnail\<close>, \<open>ImageOps.exif_transpose\<close> and
  \<open>img.transpose\<close> (which may raise), \<open>im.save\<close>, \<open>str\<close> of an integer, \<open>shlex.quote\<close>, \<open>str.format\<close>,
  \<open>shlex.split\<close>, \<open>subprocess.run\<close> (the return code and the file system the command
  leaves), a failure of \<open>cache_dump\<close>, an exception (an interruption among them) at a
  point of the coordinator, and \<open>os.cpu_count()\<close>.
\<close>

record env =
  env_open :: "world \<Rightarrow> path \<Rightarrow> exn + image"
  env_copy :: "world \<Rightarrow> image \<Rightarrow> exn option"
  env_thumbnail :: "world \<Rightarrow> image \<Rightarrow> int \<Rightarrow> int \<Rightarrow> exn option"
  env_exif_transpose :: "world \<Rightarrow> image \<Rightarrow> exn option"
  env_transpose :: "world \<Rightarrow> image \<Rightarrow> transpose_method option \<Rightarrow> exn option"
  env_save :: "world \<Rightarrow> image \<Rightarrow> path \<Rightarrow> pyval options \<Rightarrow> save_result"
  env_str :: "int \<Rightarrow> string"
  env_quote :: "string \<Rightarrow> string"
  env_format :: "string \<Rightarrow> pyval options \<Rightarrow> exn + string"
  env_split :: "string \<Rightarrow> string list"
  env_run :: "world \<Rightarrow> string list \<Rightarrow> exn + int \<times> (path \<rightharpoonup> nat)"
  env_dump :: "world \<Rightarrow> exn option"
  env_site :: "world \<Rightarrow> site \<Rightarrow> exn option"
  env_cpu_count :: nat

definition emit :: "event \<Rightarrow> world \<Rightarrow> world" where
  "emit e w = w\<lparr>events := events w @ [e]\<rparr>"

definition log :: "loglevel \<Rightarrow> string \<Rightarrow> string list \<Rightarrow> world \<Rightarrow> world" where
  "log lvl msg args w = emit (Log lvl msg args) w"

text \<open>\<open>queue.put(m)\<close>\<close>

definition queue_put :: "int option \<Rightarrow> world \<Rightarrow> world" where
  "queue_put m w = emit (Put m) (w\<lparr>queue := queue w @ [m]\<rparr>)"

text \<open>\<open>Path("build") / p\<close>, which is \<open>os.path.join("build", p)\<close>.\<close>

definition build_path :: "path \<Rightarrow> path" where
  "build_path p =
     (case p of
        [] \<Rightarrow> ''build/''
      | c # _ \<Rightarrow> if c = CHR ''/'' then p else ''build/'' @ p)"

subsection \<open>The cache store\<close>

text \<open>
  Modelled from the spec: \<open>fingerprint(sourcePath, optionsSet, derivedPath)\<close> of the
  cache store (\<open>recitale/cache.py\<close> is not among the sources). It reads the two paths'
  states and ignores the superficial option keys.
\<close>

definition fingerprint_of :: "world \<Rightarrow> path \<Rightarrow> pyval options \<Rightarrow> path \<Rightarrow> fingerprint" where
  "fingerprint_of w source options derived =
     \<lparr>fp_source = fs w source,
      fp_options = remove_superficial_options options,
      fp_derived = fs w derived\<rparr>"

text \<open>
  Modelled from the spec: \<open>CACHE.needs_to_be_generated(source, target, options)\<close>
  (\<open>recitale/cache.py\<close> is not among the sources): true if no entry exists for the
  key, or the derived path is absent, or the stored fingerprint differs from the one
  computed fresh.
\<close>

definition needs_to_be_generated :: "world \<Rightarrow> path \<Rightarrow> path \<Rightarrow> pyval options \<Rightarrow> bool" where
  "needs_to_be_generated w source target options =
     (case cache w (source, target) of
        None \<Rightarrow> True
      | Some stored \<Rightarrow>
          (if fs w target = None then True
           else stored \<noteq> fingerprint_of w source options target))"

text \<open>
  Modelled from the spec: \<open>CACHE.cache_picture(source, target, options)\<close>, the
  \<open>record\<close> operation (\<open>recitale/cache.py\<close> is not among the sources): it computes
  the fresh fingerprint and stores or overwrites the entry.
\<close>

definition cache_picture :: "path \<Rightarrow> path \<Rightarrow> pyval options \<Rightarrow> world \<Rightarrow> world" where
  "cache_picture source target options w =
     emit (Record source target)
       (w\<lparr>cache := (cache w)((source, target) \<mapsto> fingerprint_of w source options target)\<rparr>)"

text \<open>
  Modelled from the spec: \<open>CACHE.cache_dump()\<close>, the \<open>flush\<close> operation
  (\<open>recitale/cache.py\<close> is not among the sources): it persists the full mapping, unless
  writing it fails.
\<close>

definition cache_dump :: "env \<Rightarrow> world \<Rightarrow> (exn + unit) \<times> world" where
  "cache_dump E w =
     (case env_dump E w of
        Some e \<Rightarrow> (Inl e, emit Flush w)
      | None \<Rightarrow> (Inr (), emit Flush (w\<lparr>persisted := Some (cache w)\<rparr>)))"

text \<open>The check as the workers make it, with the query and its answer observed.\<close>

definition check_cache :: "path \<Rightarrow> path \<Rightarrow> pyval options \<Rightarrow> world \<Rightarrow> bool \<times> world" where
  "check_cache source target options w =
     (let b = needs_to_be_generated w source target options
      in (b, emit (Check source target b) w))"

subsection \<open>Assets\<close>

text \<open>
  Modelled from the spec: a variant (a thumbnail or a re-encode; the classes of
  \<open>recitale/image.py\<close>, \<open>video.py\<close> and \<open>audio.py\<close> are not among the sources) has a
  destination path under the output tree and a target size, of which the width and the
  height may each be unset (\<open>None\<close>).
\<close>

record variant =
  v_filepath :: path
  v_size :: "int option \<times> int option"

text \<open>
  Modelled from the spec: a base asset is a source path, its options and its named
  variants; \<open>thumbnails\<close> and \<open>reencodes\<close> are dictionaries from the variant's name,
  in insertion order (an image has no re-encodes, an audio file no thumbnails).
\<close>

record asset =
  a_filepath :: path
  a_options :: "pyval options"
  a_thumbnails :: "(string \<times> variant) list"
  a_reencodes :: "(string \<times> variant) list"

text \<open>\<open>d.values()\<close>\<close>

definition dict_values :: "(string \<times> 'a) list \<Rightarrow> 'a list" where
  "dict_values d = map snd d"

text \<open>\<open>d.get(k)\<close> (or \<open>d.get(k, False)\<close>) read as a condition.\<close>

definition get_truthy :: "pyval options \<Rightarrow> string \<Rightarrow> bool" where
  "get_truthy d k = (case d k of None \<Rightarrow> False | Some v \<Rightarrow> truthy v)"

text \<open>\<open>del d[k]\<close>, which raises \<open>KeyError\<close> when the key is absent.\<close>

definition py_del :: "string \<Rightarrow> pyval options \<Rightarrow> exn + pyval options" where
  "py_del k d = (if d k = None then Inl KeyError else Inr (d(k := None)))"

text \<open>\<open>not x\<close> for a width or a height: unset, or zero.\<close>

definition falsy_dim :: "int option \<Rightarrow> bool" where
  "falsy_dim x = (case x of None \<Rightarrow> True | Some n \<Rightarrow> n = 0)"

text \<open>\<open>x if x else -1\<close>\<close>

definition dim_or_minus_one :: "int option \<Rightarrow> int" where
  "dim_or_minus_one x = (case x of None \<Rightarrow> - 1 | Some n \<Rightarrow> if n = 0 then - 1 else n)"

subsection \<open>\<open>image_params\<close>\<close>

definition image_params :: "image \<Rightarrow> pyval options \<Rightarrow> pyval options" where
  "image_params img options =
     (let format = img_format img;
          params = [''format'' \<mapsto> VStr format];
          params = (case options ''progressive'' of
                      Some v \<Rightarrow> params(''progressive'' \<mapsto> v) | None \<Rightarrow> params);
          params = (case options ''quality'' of
                      Some v \<Rightarrow> params(''quality'' \<mapsto> v) | None \<Rightarrow> params);
          params = (case img_dpi img of
                      Some v \<Rightarrow> params(''dpi'' \<mapsto> v) | None \<Rightarrow> params);
          params = (if format = ''JPEG'' \<or> format = ''MPO''
                    then params(''subsampling'' \<mapsto> VInt (img_sampling img)) else params);
          exif = img_exif img;
          params = (if exif \<noteq> [] then params(''exif'' \<mapsto> VExif exif) else params)
      in params)"

text \<open>\<open>if params.get("exif") and base.options.get("strip", False): del params["exif"]\<close>\<close>

definition strip_exif :: "pyval options \<Rightarrow> pyval options \<Rightarrow> pyval options" where
  "strip_exif options params =
     (if get_truthy params ''exif'' \<and> get_truthy options ''strip''
      then params(''exif'' := None) else params)"

subsection \<open>The scan worker: \<open>noncached_images\<close>\<close>

text \<open>
  The loop over \<open>base.thumbnails.values()\<close>: the first variant that needs to be
  generated puts one unit on the queue and returns the asset; when the loop ends, the
  unit is put and nothing is returned.
\<close>

fun scan_thumbnails ::
  "asset \<Rightarrow> pyval options \<Rightarrow> variant list \<Rightarrow> world \<Rightarrow> asset option \<times> world" where
  "scan_thumbnails base params [] w = (None, queue_put (Some 1) w)"
| "scan_thumbnails base params (thumbnail # rest) w =
     (let filepath = build_path (v_filepath thumbnail);
          (needed, w) = check_cache (a_filepath base) filepath params w
      in if needed then (Some base, queue_put (Some 1) w)
         else scan_thumbnails base params rest w)"

definition noncached_images :: "env \<Rightarrow> asset \<Rightarrow> world \<Rightarrow> (exn + asset option) \<times> world" where
  "noncached_images E base w =
     (case env_open E w (a_filepath base) of
        Inl e \<Rightarrow> (Inl e, w)
      | Inr img \<Rightarrow>
          (let w = emit (ImageOpen (a_filepath base)) w;
               params = image_params img (a_options base);
               params = strip_exif (a_options base) params;
               (r, w) = scan_thumbnails base params (dict_values (a_thumbnails base)) w
           in (Inr r, w)))"

subsection \<open>The render worker: \<open>render_thumbnails\<close>\<close>

text \<open>\<open>exif.get(0x0112, 1)\<close> of the value of \<open>params.get("exif")\<close>.\<close>

definition exif_orientation :: "pyval option \<Rightarrow> int" where
  "exif_orientation exif =
     (case exif of
        Some (VExif e) \<Rightarrow> (case map_of e 274 of None \<Rightarrow> 1 | Some v \<Rightarrow> v)
      | _ \<Rightarrow> 1)"

text \<open>The dictionary from the orientation tag to the transposition, with \<open>.get\<close>.\<close>

definition orientation_method :: "int \<Rightarrow> transpose_method option" where
  "orientation_method orientation =
     (if orientation = 2 then Some FLIP_LEFT_RIGHT
      else if orientation = 3 then Some ROTATE_180
      else if orientation = 4 then Some FLIP_TOP_BOTTOM
      else if orientation = 5 then Some TRANSPOSE
      else if orientation = 6 then Some ROTATE_270
      else if orientation = 7 then Some TRANSVERSE
      else if orientation = 8 then Some ROTATE_90
      else None)"

text \<open>
  The re-orientation block. In its branch the tag is present, so \<open>exif.get(0x0112)\<close>
  is the value \<open>exif.get(0x0112, 1)\<close> just compared with 1.
\<close>

definition auto_orient ::
  "env \<Rightarrow> asset \<Rightarrow> image \<Rightarrow> pyval options \<Rightarrow> world
     \<Rightarrow> (exn + image \<times> pyval options) \<times> world" where
  "auto_orient E base img params w =
     (let exif = params ''exif'' in
      if get_truthy params ''exif'' \<and> get_truthy (a_options base) ''auto-orient''
         \<and> exif_orientation exif \<noteq> 1
      then
        (let orientation = exif_orientation exif;
             w = log LDebug ''(%s) Orientation EXIF tag set to %d: rotating thumbnails''
                   [a_filepath base, env_str E orientation] w
         in case env_exif_transpose E w img of
              None \<Rightarrow> (Inr (img\<lparr>img_ops := img_ops img @ [ExifTranspose]\<rparr>, params), w)
            | Some e \<Rightarrow>
                if e = TypeError \<or> e = StructError then
                  (let method = orientation_method orientation in
                   case env_transpose E w img method of
                     Some e' \<Rightarrow> (Inl e', w)
                   | None \<Rightarrow>
                       (let img = img\<lparr>img_ops := img_ops img @ [Transpose method]\<rparr> in
                        if \<not> get_truthy (a_options base) ''strip'' then
                          (let w = log LWarning
                                 ''(%s) Original image contains EXIF metadata that Pillow < %s cannot handle.''
                                 [a_filepath base,
                                  if e = TypeError then ''7.2.0'' else ''7.0.0''] w
                           in case py_del ''exif'' params of
                                Inl e' \<Rightarrow> (Inl e', w)
                              | Inr params \<Rightarrow> (Inr (img, params), w))
                        else (Inr (img, params), w)))
                else (Inl e, w))
      else (Inr (img, params), w))"

definition IGNORE_DIM :: int where
  "IGNORE_DIM = 65596"

text \<open>
  The block that follows \<open>width, height = thumbnail.size\<close>. The call of
  \<open>im.thumbnail\<close> stands inside the \<open>if\<close>, as in the source. The result is the image
  and the variables \<open>width\<close> and \<open>height\<close> after the block.
\<close>

definition resize ::
  "env \<Rightarrow> image \<Rightarrow> int option \<times> int option \<Rightarrow> world
     \<Rightarrow> exn + image \<times> int option \<times> int option" where
  "resize E im target w =
     (let (width, height) = target in
      if falsy_dim width \<or> falsy_dim height then
        (let height = (case height of None \<Rightarrow> IGNORE_DIM | Some h \<Rightarrow> h);
             width = (case width of None \<Rightarrow> IGNORE_DIM | Some x \<Rightarrow> x)
         in case env_thumbnail E w im width height of
              Some e \<Rightarrow> Inl e
            | None \<Rightarrow>
                Inr (im\<lparr>img_ops := img_ops im @ [Thumbnail width height]\<rparr>,
                     Some width, Some height))
      else Inr (im, width, height))"

text \<open>\<open>im.save(filepath, **params)\<close>\<close>

definition save_image ::
  "env \<Rightarrow> image \<Rightarrow> path \<Rightarrow> pyval options \<Rightarrow> world \<Rightarrow> (exn + unit) \<times> world" where
  "save_image E im filepath params w =
     (case env_save E w im filepath params of
        SaveOk t \<Rightarrow>
          (Inr (), emit (Save filepath im True) (w\<lparr>fs := (fs w)(filepath \<mapsto> t)\<rparr>))
      | SaveFailed e st \<Rightarrow>
          (Inl e, emit (Save filepath im False) (w\<lparr>fs := (fs w)(filepath := st)\<rparr>)))"

text \<open>
  \<open>ImageFile.MAXBLOCK = max(ImageFile.MAXBLOCK,
  (4 * width * height) + len(im.info.get("icc_profile", "")) + 10)\<close>
\<close>

definition enlarge_buffer :: "image \<Rightarrow> int \<Rightarrow> int \<Rightarrow> world \<Rightarrow> world" where
  "enlarge_buffer im width height w =
     w\<lparr>maxblock := max (maxblock w) ((4 * width * height) + int (img_icc_len im) + 10)\<rparr>"

text \<open>
  The \<open>try\<close> statement around \<open>im.save\<close> with its two handlers. An exception raised
  inside a handler (by the second \<open>im.save\<close>, by \<open>del params["exif"]\<close>, or by the
  product with an unset dimension) is not caught by the other handler. The log
  messages are abbreviated to their first sentence.
\<close>

definition save_thumbnail ::
  "env \<Rightarrow> asset \<Rightarrow> variant \<Rightarrow> image \<Rightarrow> int option \<Rightarrow> int option \<Rightarrow> path
     \<Rightarrow> pyval options \<Rightarrow> world \<Rightarrow> (exn + pyval options) \<times> world" where
  "save_thumbnail E base thumbnail im width height filepath params w =
     (case save_image E im filepath params w of
        (Inr _, w) \<Rightarrow> (Inr params, w)
      | (Inl e, w) \<Rightarrow>
          if e = OSError then
            (let w = log LWarning ''(%s) Failed to save %s.''
                       [a_filepath base, filepath, a_filepath base] w;
                 (width, height) =
                   (if \<not> falsy_dim width \<and> \<not> falsy_dim height then (width, height)
                    else v_size thumbnail)
             in case (width, height) of
                  (Some wd, Some ht) \<Rightarrow>
                    (let w = enlarge_buffer im wd ht w in
                     case save_image E im filepath params w of
                       (Inr _, w) \<Rightarrow> (Inr params, w)
                     | (Inl e', w) \<Rightarrow> (Inl e', w))
                | _ \<Rightarrow> (Inl TypeError, w))
          else if e = TypeError then
            (let w = log LWarning
                       ''(%s) Original image contains EXIF metadata that Pillow < 7.2.0 cannot handle.''
                       [a_filepath base] w
             in case py_del ''exif'' params of
                  Inl e' \<Rightarrow> (Inl e', w)
                | Inr params \<Rightarrow>
                    (case save_image E im filepath params w of
                       (Inr _, w) \<Rightarrow> (Inr params, w)
                     | (Inl e', w) \<Rightarrow> (Inl e', w)))
          else (Inl e, w))"

text \<open>The body of the loop over the thumbnails, for one variant.\<close>

definition render_thumbnail ::
  "env \<Rightarrow> asset \<Rightarrow> image \<Rightarrow> variant \<Rightarrow> pyval options \<Rightarrow> world
     \<Rightarrow> (exn + pyval options) \<times> world" where
  "render_thumbnail E base img thumbnail params w =
     (let filepath = build_path (v_filepath thumbnail);
          (needed, w) = check_cache (a_filepath base) filepath params w
      in if \<not> needed then (Inr params, w)
         else
           (case env_copy E w img of
              Some e \<Rightarrow> (Inl e, w)
            | None \<Rightarrow>
                (let im = img in
                 case resize E im (v_size thumbnail) w of
                   Inl e \<Rightarrow> (Inl e, w)
                 | Inr (im, width, height) \<Rightarrow>
                     (let w = log LDebug ''(%s) Creating thumbnail %s: size=%s''
                                [a_filepath base, filepath] w
                      in case save_thumbnail E base thumbnail im width height filepath params w of
                           (Inl e, w) \<Rightarrow> (Inl e, w)
                         | (Inr params, w) \<Rightarrow>
                             (let w = log LDebug ''(%s) Done creating thumbnail %s: size=%s''
                                        [a_filepath base, filepath] w;
                                  w = cache_picture (a_filepath base) filepath params w
                              in (Inr params, w))))))"

fun render_loop ::
  "env \<Rightarrow> asset \<Rightarrow> image \<Rightarrow> variant list \<Rightarrow> pyval options \<Rightarrow> world
     \<Rightarrow> (exn + pyval options) \<times> world" where
  "render_loop E base img [] params w = (Inr params, w)"
| "render_loop E base img (thumbnail # rest) params w =
     (case render_thumbnail E base img thumbnail params w of
        (Inl e, w) \<Rightarrow> (Inl e, w)
      | (Inr params, w) \<Rightarrow> render_loop E base img rest params w)"

definition render_thumbnails :: "env \<Rightarrow> asset \<Rightarrow> world \<Rightarrow> (exn + unit) \<times> world" where
  "render_thumbnails E base w =
     (let w = log LDebug ''(%s) Rendering thumbnails'' [a_filepath base] w in
      case env_open E w (a_filepath base) of
        Inl e \<Rightarrow> (Inl e, w)
      | Inr img \<Rightarrow>
          (let w = emit (ImageOpen (a_filepath base)) w;
               params = image_params img (a_options base)
           in case auto_orient E base img params w of
                (Inl e, w) \<Rightarrow> (Inl e, w)
              | (Inr (img, params), w) \<Rightarrow>
                  (let params = strip_exif (a_options base) params in
                   case render_loop E base img (dict_values (a_thumbnails base)) params w of
                     (Inl e, w) \<Rightarrow> (Inl e, w)
                   | (Inr params, w) \<Rightarrow> (Inr (), queue_put (Some 1) w))))"

subsection \<open>The sequential encoders: \<open>render_video\<close> and \<open>reencode_audio\<close>\<close>

text \<open>\<open>subprocess.run(argv).returncode\<close>; the command leaves the file system it leaves.\<close>

definition run_command :: "env \<Rightarrow> string list \<Rightarrow> world \<Rightarrow> (exn + int) \<times> world" where
  "run_command E argv w =
     (case env_run E w argv of
        Inl e \<Rightarrow> (Inl e, w)
      | Inr (returncode, files) \<Rightarrow>
          (Inr returncode, emit (Run argv returncode) (w\<lparr>fs := files\<rparr>)))"

text \<open>How a loop body ended: the loop goes on, or the function returned.\<close>

datatype flow = Continue | Return

text \<open>The loop over \<open>base.reencodes.values()\<close> of \<open>render_video\<close>.\<close>

fun video_reencodes ::
  "env \<Rightarrow> asset \<Rightarrow> string \<Rightarrow> variant list \<Rightarrow> world \<Rightarrow> (exn + flow) \<times> world" where
  "video_reencodes E base reencodecmd [] w = (Inr Continue, w)"
| "video_reencodes E base reencodecmd (reencode # rest) w =
     (let w = log LInfo ''Reencoding (%s)'' [a_filepath base] w;
          filepath = build_path (v_filepath reencode);
          (needed, w) = check_cache (a_filepath base) filepath (a_options base) w
      in if \<not> needed then video_reencodes E base reencodecmd rest w
         else
           (let (width, height) = v_size reencode;
                width = dim_or_minus_one width;
                height = dim_or_minus_one height;
                command = reencodecmd @ ''-s '' @ env_str E width @ ''x'' @ env_str E height
                            @ '' '' @ env_quote E filepath
            in case env_format E command (a_options base) of
                 Inl e \<Rightarrow> (Inl e, w)
               | Inr command \<Rightarrow>
                   (case run_command E (env_split E command) w of
                      (Inl e, w) \<Rightarrow> (Inl e, w)
                    | (Inr returncode, w) \<Rightarrow>
                        if returncode \<noteq> 0 then
                          (Inr Return,
                           log LError ''An error occured while rendering reencodes for %s''
                             [a_filepath base] w)
                        else
                          video_reencodes E base reencodecmd rest
                            (cache_picture (a_filepath base) filepath (a_options base) w))))"

text \<open>
  The loop over \<open>base.thumbnails.values()\<close> of \<open>render_video\<close> that collects the
  uncached thumbnails and builds the command. The variable \<open>filepath\<close> is assigned at
  the top of every iteration, also of one that ends with \<open>continue\<close>, and is still
  bound after the loop; \<open>None\<close> is the variable before the first iteration.
\<close>

fun video_thumbnails ::
  "env \<Rightarrow> asset \<Rightarrow> variant list \<Rightarrow> variant list \<Rightarrow> string \<Rightarrow> path option \<Rightarrow> world
     \<Rightarrow> (variant list \<times> string \<times> path option) \<times> world" where
  "video_thumbnails E base [] uncached command filepath w = ((uncached, command, filepath), w)"
| "video_thumbnails E base (thumbnail # rest) uncached command filepath w =
     (let filepath = build_path (v_filepath thumbnail);
          (needed, w) = check_cache (a_filepath base) filepath (a_options base) w
      in if \<not> needed then video_thumbnails E base rest uncached command (Some filepath) w
         else
           (let (width, height) = v_size thumbnail;
                width = dim_or_minus_one width;
                height = dim_or_minus_one height;
                command = command @ '' -frames:v 1 -vf scale='' @ env_str E width @ '':''
                            @ env_str E height @ '' '' @ env_quote E filepath;
                uncached = uncached @ [thumbnail]
            in video_thumbnails E base rest uncached command (Some filepath) w))"

text \<open>
  \<open>for thumbnail in uncached: CACHE.cache_picture(base.filepath, str(filepath),
  base.options)\<close>, where \<open>filepath\<close> is the variable the loop before left.
\<close>

fun video_record :: "asset \<Rightarrow> variant list \<Rightarrow> path \<Rightarrow> world \<Rightarrow> world" where
  "video_record base [] filepath w = w"
| "video_record base (thumbnail # rest) filepath w =
     video_record base rest filepath
       (cache_picture (a_filepath base) filepath (a_options base) w)"

text \<open>The variables \<open>basecmd\<close> and \<open>reencodecmd\<close> of \<open>render_video\<close>.\<close>

definition video_basecmd :: "env \<Rightarrow> asset \<Rightarrow> string" where
  "video_basecmd E base =
     ''{binary} -loglevel {loglevel} -y -i '' @ env_quote E (a_filepath base)"

definition video_reencodecmd :: "env \<Rightarrow> asset \<Rightarrow> string" where
  "video_reencodecmd E base =
     video_basecmd E base
     @ '' -stats -c:v {video} -b:v {vbitrate} {other} -c:a {audio} -b:a {abitrate} ''
     @ ''-f {format} ''"

definition render_video :: "env \<Rightarrow> asset \<Rightarrow> world \<Rightarrow> (exn + unit) \<times> world" where
  "render_video E base w =
     (let w = log LDebug ''(%s) Rendering thumbnails and reencodes'' [a_filepath base] w;
          basecmd = video_basecmd E base
      in case (if a_reencodes base \<noteq> [] then
                 (let reencodecmd = video_reencodecmd E base
                  in video_reencodes E base reencodecmd (dict_values (a_reencodes base)) w)
               else (Inr Continue, w)) of
           (Inl e, w) \<Rightarrow> (Inl e, w)
         | (Inr Return, w) \<Rightarrow> (Inr (), w)
         | (Inr Continue, w) \<Rightarrow>
             if a_thumbnails base = [] then (Inr (), w)
             else
               (let ((uncached, command, filepath), w) =
                      video_thumbnails E base (dict_values (a_thumbnails base)) [] [] None w
                in if uncached = [] then (Inr (), w)
                   else
                     (let command = basecmd @ command in
                      case env_format E command (a_options base) of
                        Inl e \<Rightarrow> (Inl e, w)
                      | Inr command \<Rightarrow>
                          (case run_command E (env_split E command) w of
                             (Inl e, w) \<Rightarrow> (Inl e, w)
                           | (Inr returncode, w) \<Rightarrow>
                               if returncode \<noteq> 0 then
                                 (Inr (),
                                  log LError ''An error occured while rendering thumbnails for %s''
                                    [a_filepath base] w)
                               else
                                 (case filepath of
                                    None \<Rightarrow> (Inl (OtherError ''NameError''), w)
                                  | Some filepath \<Rightarrow>
                                      (Inr (), video_record base uncached filepath w))))))"

text \<open>The loop over \<open>base.reencodes.values()\<close> of \<open>reencode_audio\<close>.\<close>

fun audio_reencodes ::
  "env \<Rightarrow> asset \<Rightarrow> string \<Rightarrow> variant list \<Rightarrow> world \<Rightarrow> (exn + unit) \<times> world" where
  "audio_reencodes E base basecmd [] w = (Inr (), w)"
| "audio_reencodes E base basecmd (reencode # rest) w =
     (let w = log LInfo ''Reencoding (%s)'' [a_filepath base] w;
          filepath = build_path (v_filepath reencode);
          (needed, w) = check_cache (a_filepath base) filepath (a_options base) w
      in if \<not> needed then
           (Inr (), log LInfo ''Skipped: %s is already generated'' [v_filepath reencode] w)
         else
           (let command = basecmd @ env_quote E filepath in
            case env_format E command (a_options base) of
              Inl e \<Rightarrow> (Inl e, w)
            | Inr command \<Rightarrow>
                (case run_command E (env_split E command) w of
                   (Inl e, w) \<Rightarrow> (Inl e, w)
                 | (Inr returncode, w) \<Rightarrow>
                     if returncode \<noteq> 0 then
                       (Inr (),
                        log LError ''An error occured while rendering reencodes for %s''
                          [a_filepath base] w)
                     else
                       audio_reencodes E base basecmd rest
                         (cache_picture (a_filepath base) filepath (a_options base) w))))"

text \<open>The variable \<open>basecmd\<close> of \<open>reencode_audio\<close>, after its two assignments.\<close>

definition audio_basecmd :: "env \<Rightarrow> asset \<Rightarrow> string" where
  "audio_basecmd E base =
     (let basecmd = ''{binary} -loglevel {loglevel} -stats -i '' @ env_quote E (a_filepath base);
          basecmd = basecmd @ '' -c:a {audio} -y ''
      in basecmd)"

definition reencode_audio :: "env \<Rightarrow> asset \<Rightarrow> world \<Rightarrow> (exn + unit) \<times> world" where
  "reencode_audio E base w =
     (let w = log LDebug ''(%s) Rendering reencodes'' [a_filepath base] w;
          basecmd = audio_basecmd E base
      in if a_reencodes base = [] then (Inr (), w)
         else audio_reencodes E base basecmd (dict_values (a_reencodes base)) w)"

subsection \<open>The coordinator: the \<open>try\<close> block of \<open>main\<close>\<close>

text \<open>
  How a step of the coordinator ends: it returns, it raises, or it blocks for ever
  (\<open>pbar.join()\<close> on a consumer that never receives the end of the stream).
\<close>

datatype 'a outcome = Returned 'a | Raised exn | Blocked

definition then_do ::
  "(world \<Rightarrow> 'a outcome \<times> world) \<Rightarrow> ('a \<Rightarrow> world \<Rightarrow> 'b outcome \<times> world)
     \<Rightarrow> world \<Rightarrow> 'b outcome \<times> world" where
  "then_do m k w =
     (case m w of
        (Returned x, w') \<Rightarrow> k x w'
      | (Raised e, w') \<Rightarrow> (Raised e, w')
      | (Blocked, w') \<Rightarrow> (Blocked, w'))"

text \<open>A step that changes the state and cannot fail.\<close>

definition step :: "(world \<Rightarrow> world) \<Rightarrow> world \<Rightarrow> unit outcome \<times> world" where
  "step f w = (Returned (), f w)"

text \<open>A call into multiprocessing that may raise (or be interrupted).\<close>

definition at_site :: "env \<Rightarrow> site \<Rightarrow> world \<Rightarrow> unit outcome \<times> world" where
  "at_site E st w = (case env_site E w st of Some e \<Rightarrow> (Raised e, w) | None \<Rightarrow> (Returned (), w))"

text \<open>
  \<open>try: body finally: handler\<close>. The handler runs however the body ended, unless the
  body never ends; an exception of the handler replaces the outcome of the body.
\<close>

definition try_finally ::
  "(world \<Rightarrow> unit outcome \<times> world) \<Rightarrow> (world \<Rightarrow> (exn + unit) \<times> world)
     \<Rightarrow> world \<Rightarrow> unit outcome \<times> world" where
  "try_finally body handler w =
     (case body w of
        (Blocked, w') \<Rightarrow> (Blocked, w')
      | (r, w') \<Rightarrow>
          (case handler w' of
             (Inl e, w'') \<Rightarrow> (Raised e, w'')
           | (Inr _, w'') \<Rightarrow> (r, w'')))"

text \<open>
  \<open>handle_pbar\<close>: \<open>while queue.get(): pbar.update()\<close>, run on the messages the queue
  holds. It returns the number of updates and the messages left, and \<open>None\<close> when the
  queue runs empty before a falsy message: \<open>queue.get()\<close> then blocks.
\<close>

fun handle_pbar :: "int option list \<Rightarrow> (nat \<times> int option list) option" where
  "handle_pbar [] = None"
| "handle_pbar (m # q) =
     (case m of
        None \<Rightarrow> Some (0, q)
      | Some n \<Rightarrow>
          if n = 0 then Some (0, q)
          else (case handle_pbar q of
                  None \<Rightarrow> None
                | Some (k, q') \<Rightarrow> Some (Suc k, q')))"

text \<open>
  \<open>pbar.join()\<close>: the consumer process, started before the phase, has read the queue
  all along; joining it waits until it has read the end of the stream.
\<close>

definition process_join :: "env \<Rightarrow> world \<Rightarrow> unit outcome \<times> world" where
  "process_join E w =
     (case env_site E w ProcessJoin of
        Some e \<Rightarrow> (Raised e, w)
      | None \<Rightarrow>
          (case handle_pbar (queue w) of
             None \<Rightarrow> (Blocked, w)
           | Some (n, q) \<Rightarrow> (Returned (), w\<lparr>queue := q\<rparr>)))"

text \<open>
  \<open>Pool.map\<close> of multiprocessing, run sequentially. The items are cut into chunks of
  \<open>chunksize\<close> (\<open>divmod(len(iterable), len(pool) * 4)\<close>, plus one when there is a
  remainder); a worker runs a chunk as \<open>list(map(func, chunk))\<close>, so an exception ends
  that chunk; \<open>map\<close> waits for every chunk and then raises the first exception, if
  there was one.
\<close>

definition chunksize :: "nat \<Rightarrow> nat \<Rightarrow> nat" where
  "chunksize n nproc =
     (let c = n div (nproc * 4); extra = n mod (nproc * 4)
      in if extra \<noteq> 0 then c + 1 else c)"

function chunks :: "nat \<Rightarrow> 'a list \<Rightarrow> 'a list list" where
  "chunks c xs = (if c = 0 \<or> xs = [] then [] else take c xs # chunks c (drop c xs))"
  by pat_completeness auto
termination
  by (relation "measure (\<lambda>(c, xs). length xs)") auto

declare chunks.simps [simp del]

fun run_chunk ::
  "('a \<Rightarrow> world \<Rightarrow> (exn + 'b) \<times> world) \<Rightarrow> 'a list \<Rightarrow> world \<Rightarrow> (exn + 'b list) \<times> world" where
  "run_chunk f [] w = (Inr [], w)"
| "run_chunk f (x # xs) w =
     (case f x w of
        (Inl e, w) \<Rightarrow> (Inl e, w)
      | (Inr y, w) \<Rightarrow>
          (case run_chunk f xs w of
             (Inl e, w) \<Rightarrow> (Inl e, w)
           | (Inr ys, w) \<Rightarrow> (Inr (y # ys), w)))"

fun run_chunks ::
  "('a \<Rightarrow> world \<Rightarrow> (exn + 'b) \<times> world) \<Rightarrow> 'a list list \<Rightarrow> world
     \<Rightarrow> (exn + 'b list) \<times> world" where
  "run_chunks f [] w = (Inr [], w)"
| "run_chunks f (c # cs) w =
     (case run_chunk f c w of
        (Inl e, w) \<Rightarrow> (case run_chunks f cs w of (r, w) \<Rightarrow> (Inl e, w))
      | (Inr ys, w) \<Rightarrow>
          (case run_chunks f cs w of
             (Inl e, w) \<Rightarrow> (Inl e, w)
           | (Inr zs, w) \<Rightarrow> (Inr (ys @ zs), w)))"

definition pool_map ::
  "env \<Rightarrow> site \<Rightarrow> nat \<Rightarrow> ('a \<Rightarrow> world \<Rightarrow> (exn + 'b) \<times> world) \<Rightarrow> 'a list \<Rightarrow> world
     \<Rightarrow> 'b list outcome \<times> world" where
  "pool_map E st nproc f xs w =
     (case run_chunks f (chunks (chunksize (length xs) nproc) xs) w of
        (r, w) \<Rightarrow>
          (case env_site E w st of
             Some e \<Rightarrow> (Raised e, w)
           | None \<Rightarrow> (case r of Inl e \<Rightarrow> (Raised e, w) | Inr ys \<Rightarrow> (Returned ys, w))))"

text \<open>
  \<open>Pool(jobs, ...)\<close>: the number of processes is \<open>jobs\<close>, or \<open>os.cpu_count() or 1\<close>
  when \<open>jobs\<close> is \<open>None\<close>; a number below one raises \<open>ValueError\<close>.
\<close>

definition pool_create :: "env \<Rightarrow> int option \<Rightarrow> world \<Rightarrow> nat outcome \<times> world" where
  "pool_create E jobs w =
     (case env_site E w PoolCreate of
        Some e \<Rightarrow> (Raised e, w)
      | None \<Rightarrow>
          (case jobs of
             None \<Rightarrow> (Returned (if env_cpu_count E = 0 then 1 else env_cpu_count E), w)
           | Some j \<Rightarrow>
               if j < 1 then (Raised (OtherError ''ValueError''), w)
               else (Returned (nat j), w)))"

text \<open>\<open>[img for img in base_imgs if img]\<close>\<close>

fun flagged :: "'a option list \<Rightarrow> 'a list" where
  "flagged [] = []"
| "flagged (None # rs) = flagged rs"
| "flagged (Some x # rs) = x # flagged rs"

text \<open>\<open>for x in xs: f(x)\<close>, in the coordinator.\<close>

fun for_each ::
  "('a \<Rightarrow> world \<Rightarrow> (exn + unit) \<times> world) \<Rightarrow> 'a list \<Rightarrow> world \<Rightarrow> unit outcome \<times> world" where
  "for_each f [] w = (Returned (), w)"
| "for_each f (x # xs) w =
     (case f x w of
        (Inl e, w) \<Rightarrow> (Raised e, w)
      | (Inr _, w) \<Rightarrow> for_each f xs w)"

text \<open>
  A phase of the pool, as \<open>main\<close> writes it twice: \<open>pbar = Process(target=handle_pbar,
  ...)\<close>, \<open>pbar.start()\<close>, \<open>pool.map(worker, items)\<close>, \<open>pbar_queue.put(None)\<close>,
  \<open>pbar.join()\<close>. Its value is the list \<open>pool.map\<close> returned.
\<close>

definition progress_phase ::
  "env \<Rightarrow> nat \<Rightarrow> site \<Rightarrow> (asset \<Rightarrow> world \<Rightarrow> (exn + 'b) \<times> world) \<Rightarrow> asset list \<Rightarrow> world
     \<Rightarrow> 'b list outcome \<times> world" where
  "progress_phase E nproc st worker items =
     then_do (at_site E ProcessStart) (\<lambda>_.
     then_do (pool_map E st nproc worker items) (\<lambda>results.
     then_do (at_site E QueuePut) (\<lambda>_.
     then_do (step (queue_put None)) (\<lambda>_.
     then_do (process_join E) (\<lambda>_.
       (\<lambda>w. (Returned results, w)))))))"

text \<open>The body of \<open>with Pool(...) as pool\<close>: the scan phase, then the render phase.\<close>

definition pool_body :: "env \<Rightarrow> nat \<Rightarrow> asset list \<Rightarrow> world \<Rightarrow> unit outcome \<times> world" where
  "pool_body E nproc imgs =
     then_do (step (log LInfo ''Generating list of thumbnails to create...'' [])) (\<lambda>_.
     then_do (progress_phase E nproc PoolMapScan (noncached_images E) imgs) (\<lambda>base_imgs.
       (let base_imgs = flagged base_imgs in
        if base_imgs \<noteq> [] then
          then_do (step (log LInfo ''Generating thumbnails...'' [])) (\<lambda>_.
          then_do (progress_phase E nproc PoolMapRender (render_thumbnails E) base_imgs) (\<lambda>_.
            step (\<lambda>w. w)))
        else step (\<lambda>w. w))))"

text \<open>
  The \<open>try\<close> block of \<open>main\<close>, on the registries of the three factories (the values
  of \<open>ImageFactory.base_imgs\<close>, \<open>VideoFactory.base_vids\<close> and
  \<open>AudioFactory.base_audios\<close>): the fresh queue of the manager, the pool and its two
  phases, then the videos and the audio files in the coordinator.
\<close>

definition main_pipeline ::
  "env \<Rightarrow> int option \<Rightarrow> asset list \<Rightarrow> asset list \<Rightarrow> asset list \<Rightarrow> world
     \<Rightarrow> unit outcome \<times> world" where
  "main_pipeline E jobs base_imgs base_vids base_audios =
     then_do (at_site E ManagerQueue) (\<lambda>_.
     then_do (step (\<lambda>w. w\<lparr>queue := []\<rparr>)) (\<lambda>_.
     then_do (pool_create E jobs) (\<lambda>nproc.
     then_do (pool_body E nproc base_imgs) (\<lambda>_.
     then_do (if length base_vids \<noteq> 0 then for_each (render_video E) base_vids
              else step (\<lambda>w. w)) (\<lambda>_.
     (if length base_audios \<noteq> 0 then for_each (reencode_audio E) base_audios
      else step (\<lambda>w. w)))))))"

text \<open>\<open>try: ... finally: CACHE.cache_dump()\<close>\<close>

definition main_build ::
  "env \<Rightarrow> int option \<Rightarrow> asset list \<Rightarrow> asset list \<Rightarrow> asset list \<Rightarrow> world
     \<Rightarrow> unit outcome \<times> world" where
  "main_build E jobs base_imgs base_vids base_audios =
     try_finally (main_pipeline E jobs base_imgs base_vids base_audios) (cache_dump E)"

subsection \<open>Reading the events\<close>

text \<open>The destination path of a variant under the output tree.\<close>

abbreviation (input) dst :: "variant \<Rightarrow> path" where
  "dst t \<equiv> build_path (v_filepath t)"

text \<open>The images saved, the records made, the commands run, the cache queries, the
  messages put on the queue and the destinations of the saves that succeeded.\<close>

fun saves :: "event list \<Rightarrow> (path \<times> image_op list \<times> bool) list" where
  "saves [] = []"
| "saves (Save p im ok # es) = (p, img_ops im, ok) # saves es"
| "saves (e # es) = saves es"

fun records :: "event list \<Rightarrow> (path \<times> path) list" where
  "records [] = []"
| "records (Record s t # es) = (s, t) # records es"
| "records (e # es) = records es"

fun runs :: "event list \<Rightarrow> (string list \<times> int) list" where
  "runs [] = []"
| "runs (Run argv rc # es) = (argv, rc) # runs es"
| "runs (e # es) = runs es"

fun checks :: "event list \<Rightarrow> (path \<times> bool) list" where
  "checks [] = []"
| "checks (Check s t b # es) = (t, b) # checks es"
| "checks (e # es) = checks es"

fun puts :: "event list \<Rightarrow> int option list" where
  "puts [] = []"
| "puts (Put m # es) = m # puts es"
| "puts (e # es) = puts es"

fun saved_ok :: "event list \<Rightarrow> path list" where
  "saved_ok [] = []"
| "saved_ok (Save p im ok # es) = (if ok then p # saved_ok es else saved_ok es)"
| "saved_ok (e # es) = saved_ok es"

text \<open>The elements of a list up to and including the first that satisfies \<open>P\<close>.\<close>

fun until_first :: "('a \<Rightarrow> bool) \<Rightarrow> 'a list \<Rightarrow> 'a list" where
  "until_first P [] = []"
| "until_first P (x # xs) = (if P x then [x] else x # until_first P xs)"

text \<open>
  What a part of a worker appended to the events: no flush, no message on the queue, no
  command, and the given cache queries, successful saves and records.
\<close>

definition appended ::
  "world \<Rightarrow> world \<Rightarrow> (path \<times> bool) list \<Rightarrow> path list \<Rightarrow> (path \<times> path) list \<Rightarrow> bool" where
  "appended w w' cs ss rs =
     (\<exists>evs. events w' = events w @ evs \<and> Flush \<notin> set evs \<and> puts evs = [] \<and> runs evs = []
        \<and> checks evs = cs \<and> saved_ok evs = ss \<and> records evs = rs)"

text \<open>
  What a worker or an encoder appended to the events and to the queue: no flush, and
  the given messages, each both an event and a message of the queue.
\<close>

definition grows :: "world \<Rightarrow> world \<Rightarrow> int option list \<Rightarrow> bool" where
  "grows w w' ms =
     (\<exists>evs. events w' = events w @ evs \<and> Flush \<notin> set evs \<and> puts evs = ms
        \<and> queue w' = queue w @ ms)"

text \<open>The same for the coordinator, which also resets and drains the queue.\<close>

definition emitted :: "world \<Rightarrow> world \<Rightarrow> int option list \<Rightarrow> bool" where
  "emitted w w' ms =
     (\<exists>evs. events w' = events w @ evs \<and> Flush \<notin> set evs \<and> puts evs = ms)"

text \<open>
  A worker of the pool as the progress count sees it: an item it completes puts one
  unit on the queue, an item on which it raises puts none.
\<close>

definition unit_worker :: "('a \<Rightarrow> world \<Rightarrow> (exn + 'b) \<times> world) \<Rightarrow> bool" where
  "unit_worker f =
     (\<forall>x w. case f x w of
              (Inr y, w') \<Rightarrow> grows w w' [Some 1]
            | (Inl e, w') \<Rightarrow> grows w w' [])"

text \<open>
  A step of the coordinator that never blocks and appends no flush.
\<close>

definition safe :: "(world \<Rightarrow> 'a outcome \<times> world) \<Rightarrow> bool" where
  "safe m = (\<forall>w r w'. m w = (r, w') \<longrightarrow> r \<noteq> Blocked \<and> (\<exists>ms. emitted w w' ms))"

section \<open>Example inputs\<close>

definition opts_float_left :: "pyval options" where
  "opts_float_left = [''quality'' \<mapsto> VInt 75, ''float'' \<mapsto> VStr ''left'']"

definition opts_float_right :: "pyval options" where
  "opts_float_right = [''quality'' \<mapsto> VInt 75, ''float'' \<mapsto> VStr ''right'']"

definition opts_named :: "pyval options" where
  "opts_named = [''quality'' \<mapsto> VInt 75, ''name'' \<mapsto> VStr ''a.jpg'', ''text'' \<mapsto> VStr ''A'']"

definition opts_renamed :: "pyval options" where
  "opts_renamed = [''quality'' \<mapsto> VInt 75, ''name'' \<mapsto> VStr ''b.jpg'', ''resize'' \<mapsto> VStr ''50%'']"

text \<open>An environment in which nothing fails and every command exits with status zero.\<close>

definition img_plain :: image where
  "img_plain =
     \<lparr>img_format = ''PNG'', img_dpi = None, img_sampling = 0, img_exif = [],
      img_icc_len = 0, img_ops = []\<rparr>"

definition env_ok :: env where
  "env_ok =
     \<lparr>env_open = (\<lambda>w p. Inr img_plain),
      env_copy = (\<lambda>w im. None),
      env_thumbnail = (\<lambda>w im x y. None),
      env_exif_transpose = (\<lambda>w im. None),
      env_transpose = (\<lambda>w im m. None),
      env_save = (\<lambda>w im p params. SaveOk 7),
      env_str = (\<lambda>i. ''N''),
      env_quote = (\<lambda>s. s),
      env_format = (\<lambda>s opts. Inr s),
      env_split = (\<lambda>s. [s]),
      env_run = (\<lambda>w argv. Inr (0, fs w)),
      env_dump = (\<lambda>w. None),
      env_site = (\<lambda>w st. None),
      env_cpu_count = 1\<rparr>"

text \<open>A first build: the sources exist, nothing is cached, nothing is built.\<close>

definition world_cold :: world where
  "world_cold =
     \<lparr>fs = [''a.png'' \<mapsto> 1, ''v.mp4'' \<mapsto> 1, ''s.ogg'' \<mapsto> 1],
      cache = Map.empty, persisted = None, maxblock = 65536, queue = [], events = []\<rparr>"

definition photo_both_dims :: asset where
  "photo_both_dims =
     \<lparr>a_filepath = ''a.png'', a_options = Map.empty,
      a_thumbnails = [(''small'', \<lparr>v_filepath = ''a-800x600.png'', v_size = (Some 800, Some 600)\<rparr>)],
      a_reencodes = []\<rparr>"

definition photo_width_only :: asset where
  "photo_width_only =
     \<lparr>a_filepath = ''a.png'', a_options = Map.empty,
      a_thumbnails = [(''small'', \<lparr>v_filepath = ''a-800.png'', v_size = (Some 800, None)\<rparr>)],
      a_reencodes = []\<rparr>"

definition video_two_thumbnails :: asset where
  "video_two_thumbnails =
     \<lparr>a_filepath = ''v.mp4'', a_options = Map.empty,
      a_thumbnails =
        [(''small'', \<lparr>v_filepath = ''v-1.jpg'', v_size = (Some 100, None)\<rparr>),
         (''large'', \<lparr>v_filepath = ''v-2.jpg'', v_size = (Some 200, None)\<rparr>)],
      a_reencodes = []\<rparr>"

definition audio_two_reencodes :: asset where
  "audio_two_reencodes =
     \<lparr>a_filepath = ''s.ogg'', a_options = Map.empty,
      a_thumbnails = [],
      a_reencodes =
        [(''mp3'', \<lparr>v_filepath = ''s-1.mp3'', v_size = (None, None)\<rparr>),
         (''low'', \<lparr>v_filepath = ''s-2.mp3'', v_size = (None, None)\<rparr>)]\<rparr>"

text \<open>
  The state a partial earlier run leaves: the first re-encode of the audio file is built
  and recorded, the second is not.
\<close>

definition world_first_reencoded :: world where
  "world_first_reencoded =
     cache_picture ''s.ogg'' ''build/s-1.mp3'' Map.empty
       (world_cold\<lparr>fs := (fs world_cold)(''build/s-1.mp3'' \<mapsto> 2)\<rparr>)\<lparr>events := []\<rparr>"

text \<open>
  An image with two thumbnails, and the state a partial earlier run leaves: the small
  thumbnail is built and recorded, the large one is missing.
\<close>

definition photo_two_variants :: asset where
  "photo_two_variants =
     \<lparr>a_filepath = ''a.png'', a_options = Map.empty,
      a_thumbnails =
        [(''small'', \<lparr>v_filepath = ''a-100.png'', v_size = (Some 100, None)\<rparr>),
         (''large'', \<lparr>v_filepath = ''a-800.png'', v_size = (Some 800, None)\<rparr>)],
      a_reencodes = []\<rparr>"

definition world_small_cached :: world where
  "world_small_cached =
     cache_picture ''a.png'' ''build/a-100.png'' (image_params img_plain Map.empty)
       (world_cold\<lparr>fs := (fs world_cold)(''build/a-100.png'' \<mapsto> 2)\<rparr>)\<lparr>events := []\<rparr>"

text \<open>
  Environments in which saving fails: every \<open>im.save\<close> raises \<open>OSError\<close>; or it
  raises \<open>OSError\<close> as long as \<open>ImageFile.MAXBLOCK\<close> is below what a thumbnail of
  800 x 65596 needs. And one in which no source can be opened.
\<close>

definition env_disk_full :: env where
  "env_disk_full = env_ok\<lparr>env_save := (\<lambda>w im p params. SaveFailed OSError None)\<rparr>"

definition env_small_buffer :: env where
  "env_small_buffer =
     env_ok\<lparr>env_save := (\<lambda>w im p params.
        if maxblock w < 4 * 800 * 65596 then SaveFailed OSError None else SaveOk 7)\<rparr>"

definition env_unreadable :: env where
  "env_unreadable = env_ok\<lparr>env_open := (\<lambda>w p. Inl OSError)\<rparr>"

text \<open>The thumbnail of \<open>photo_width_only\<close>.\<close>

definition thumb_800 :: variant where
  "thumb_800 = \<lparr>v_filepath = ''a-800.png'', v_size = (Some 800, None)\<rparr>"

definition store_example :: "pyval store" where
  "store_example = [opts_float_left, opts_named]"

section \<open>Stripping superficial keys\<close>

lemma del_if_in_apply: "del_if_in k d x = (if x = k then None else d x)"
  by (cases "d k") (simp_all add: del_if_in_def)

lemma remove_superficial_options_apply:
  "remove_superficial_options d k = (if k \<in> superficial_keys then None else d k)"
  by (simp add: remove_superficial_options_def del_if_in_apply superficial_keys_def)

text \<open>
  C1, as the source has it. The stripped dictionary is the argument with exactly the
  seven keys \<open>name\<close>, \<open>exif\<close>, \<open>text\<close>, \<open>type\<close>, \<open>size\<close>, \<open>float\<close> and \<open>resize\<close>
  removed and every other key kept with its value; so two dictionaries have the same
  stripped dictionary exactly when they agree on every key outside those seven: a
  difference confined to the seven keys never shows, a difference at any other key
  always does.
\<close>

theorem remove_superficial_options_strips_exactly:
  "dom (remove_superficial_options d) = dom d - superficial_keys
   \<and> (\<forall>k. k \<notin> superficial_keys \<longrightarrow> remove_superficial_options d k = d k)
   \<and> ((remove_superficial_options d1 = remove_superficial_options d2)
        = (\<forall>k. k \<notin> superficial_keys \<longrightarrow> d1 k = d2 k))"
proof -
  have "dom (remove_superficial_options d) = dom d - superficial_keys"
    by (auto simp: remove_superficial_options_apply dom_def)
  moreover have "\<forall>k. k \<notin> superficial_keys \<longrightarrow> remove_superficial_options d k = d k"
    by (simp add: remove_superficial_options_apply)
  moreover have "(remove_superficial_options d1 = remove_superficial_options d2)
        = (\<forall>k. k \<notin> superficial_keys \<longrightarrow> d1 k = d2 k)"
  proof
    assume eq: "remove_superficial_options d1 = remove_superficial_options d2"
    show "\<forall>k. k \<notin> superficial_keys \<longrightarrow> d1 k = d2 k"
    proof (intro allI impI)
      fix k :: string
      assume "k \<notin> superficial_keys"
      then have "d1 k = remove_superficial_options d1 k" "remove_superficial_options d2 k = d2 k"
        by (simp_all add: remove_superficial_options_apply)
      with eq show "d1 k = d2 k" by simp
    qed
  next
    assume "\<forall>k. k \<notin> superficial_keys \<longrightarrow> d1 k = d2 k"
    then show "remove_superficial_options d1 = remove_superficial_options d2"
      by (intro ext) (simp add: remove_superficial_options_apply)
  qed
  ultimately show ?thesis by blast
qed

theorem remove_superficial_options_strips_exactly_witness:
  "remove_superficial_options opts_named = remove_superficial_options opts_renamed
   \<and> remove_superficial_options opts_named ''quality'' = Some (VInt 75)
   \<and> ''name'' \<notin> dom (remove_superficial_options opts_named)"
proof -
  note inst = remove_superficial_options_strips_exactly [of opts_named opts_named opts_renamed]
  have agree: "\<forall>k. k \<notin> superficial_keys \<longrightarrow> opts_named k = opts_renamed k"
    by (simp add: superficial_keys_def opts_named_def opts_renamed_def)
  have notin: "''quality'' \<notin> superficial_keys"
    by (simp add: superficial_keys_def)
  have a: "remove_superficial_options opts_named = remove_superficial_options opts_renamed"
    using inst [THEN conjunct2, THEN conjunct2] agree by (rule iffD2)
  have "remove_superficial_options opts_named ''quality'' = opts_named ''quality''"
    using inst [THEN conjunct2, THEN conjunct1, THEN spec, of "''quality''"] notin by (rule mp)
  then have b: "remove_superficial_options opts_named ''quality'' = Some (VInt 75)"
    by (simp add: opts_named_def)
  have "dom (remove_superficial_options opts_named) = dom opts_named - superficial_keys"
    using inst by (rule conjunct1)
  then have c: "''name'' \<notin> dom (remove_superficial_options opts_named)"
    by (simp add: superficial_keys_def)
  from a b c show ?thesis by (intro conjI)
qed

text \<open>
  C1 with the six keys the specification lists fails at \<open>float\<close>: the key is not among
  the six, the two dictionaries differ there, and they are stripped to the same
  dictionary.
\<close>

theorem remove_superficial_options_float_counterexample:
  "''float'' \<notin> spec_superficial_keys
   \<and> opts_float_left ''float'' \<noteq> opts_float_right ''float''
   \<and> remove_superficial_options opts_float_left = remove_superficial_options opts_float_right"
proof -
  have "remove_superficial_options opts_float_left = remove_superficial_options opts_float_right"
    by (intro ext)
      (simp add: remove_superficial_options_apply superficial_keys_def
        opts_float_left_def opts_float_right_def)
  then show ?thesis
    by (simp add: spec_superficial_keys_def opts_float_left_def opts_float_right_def)
qed


subsection \<open>The caller's dictionary\<close>

lemma store_del_if_in_last:
  "store_del_if_in k (length h) (h @ [d]) = h @ [del_if_in k d]"
  by (simp add: store_del_if_in_def del_if_in_def)

lemma remove_superficial_options_store_eq:
  "remove_superficial_options_store r h =
     (length h, h @ [remove_superficial_options (h ! r)])"
  by (simp add: remove_superficial_options_store_def dict_copy_def Let_def
      store_del_if_in_last remove_superficial_options_def)

text \<open>
  C10. Called with a reference to a dictionary of the store, the function returns a
  fresh reference, different from its argument; every dictionary that was in the store
  before the call, the argument among them, is what it was; and the dictionary returned
  is the stripped copy: each key it holds, and so each key that is not superficial, has
  the value it has in the argument.
\<close>

theorem remove_superficial_options_store_frame:
  assumes "options < length h"
    and "remove_superficial_options_store options h = (cleaned, h')"
  shows "cleaned \<noteq> options
    \<and> h' ! options = h ! options
    \<and> (\<forall>r < length h. h' ! r = h ! r)
    \<and> h' ! cleaned = remove_superficial_options (h ! options)
    \<and> (\<forall>k \<in> dom (h' ! cleaned). (h' ! cleaned) k = (h ! options) k)
    \<and> (\<forall>k. k \<notin> superficial_keys \<longrightarrow> (h' ! cleaned) k = (h ! options) k)"
proof -
  from assms(2) have c: "cleaned = length h"
    and h': "h' = h @ [remove_superficial_options (h ! options)]"
    by (simp_all add: remove_superficial_options_store_eq)
  have old: "\<forall>r < length h. h' ! r = h ! r"
    by (simp add: h' nth_append)
  have new: "h' ! cleaned = remove_superficial_options (h ! options)"
    by (simp add: h' c)
  have kept: "\<forall>k \<in> dom (h' ! cleaned). (h' ! cleaned) k = (h ! options) k"
    by (auto simp: new remove_superficial_options_apply split: if_splits)
  have other: "\<forall>k. k \<notin> superficial_keys \<longrightarrow> (h' ! cleaned) k = (h ! options) k"
    by (simp add: new remove_superficial_options_apply)
  from assms(1) c have "cleaned \<noteq> options" by simp
  moreover from old assms(1) have "h' ! options = h ! options" by simp
  ultimately show ?thesis using old new kept other by (intro conjI)
qed

theorem remove_superficial_options_store_frame_witness:
  "remove_superficial_options_store 1 store_example
     = (2, store_example @ [remove_superficial_options opts_named])
   \<and> (store_example @ [remove_superficial_options opts_named]) ! 1 = opts_named
   \<and> ((store_example @ [remove_superficial_options opts_named]) ! 2) ''quality''
       = Some (VInt 75)"
proof -
  have len: "(1::nat) < length store_example"
    by (simp add: store_example_def)
  have run: "remove_superficial_options_store 1 store_example
     = (2, store_example @ [remove_superficial_options opts_named])"
    by (simp add: remove_superficial_options_store_eq store_example_def)
  note inst = remove_superficial_options_store_frame [OF len run]
  have "(store_example @ [remove_superficial_options opts_named]) ! 1 = store_example ! 1"
    using inst by (rule conjunct1 [OF conjunct2])
  then have a: "(store_example @ [remove_superficial_options opts_named]) ! 1 = opts_named"
    by (simp add: store_example_def)
  have q: "''quality'' \<notin> superficial_keys"
    by (simp add: superficial_keys_def)
  have "((store_example @ [remove_superficial_options opts_named]) ! 2) ''quality''
      = (store_example ! 1) ''quality''"
    using inst [THEN conjunct2, THEN conjunct2, THEN conjunct2, THEN conjunct2,
        THEN conjunct2, THEN spec, of "''quality''"] q
    by (rule mp)
  then have b: "((store_example @ [remove_superficial_options opts_named]) ! 2) ''quality''
       = Some (VInt 75)"
    by (simp add: store_example_def opts_named_def)
  from run a b show ?thesis by (intro conjI)
qed

section \<open>Events, the cache store and the file system\<close>

lemmas run_simps =
  emit_def log_def queue_put_def check_cache_def needs_to_be_generated_def
  cache_picture_def fingerprint_of_def build_path_def dict_values_def
  save_image_def run_command_def Let_def

lemmas render_simps =
  render_thumbnails_def render_thumbnail_def auto_orient_def strip_exif_def
  image_params_def get_truthy_def resize_def falsy_dim_def save_thumbnail_def
  IGNORE_DIM_def

lemma saved_ok_append [simp]: "saved_ok (a @ b) = saved_ok a @ saved_ok b"
  by (induction a rule: saved_ok.induct) simp_all
lemma checks_append [simp]: "checks (a @ b) = checks a @ checks b"
  by (induction a rule: checks.induct) simp_all
lemma records_append [simp]: "records (a @ b) = records a @ records b"
  by (induction a rule: records.induct) simp_all
lemma puts_append [simp]: "puts (a @ b) = puts a @ puts b"
  by (induction a rule: puts.induct) simp_all
lemma runs_append [simp]: "runs (a @ b) = runs a @ runs b"
  by (induction a rule: runs.induct) simp_all

lemma needs_cong:
  "fs w' = fs w \<Longrightarrow> cache w' = cache w
   \<Longrightarrow> needs_to_be_generated w' = needs_to_be_generated w"
  by (intro ext) (simp add: needs_to_be_generated_def fingerprint_of_def cong: option.case_cong)

lemma needs_emit [simp]:
  "needs_to_be_generated (emit e w) = needs_to_be_generated w"
  by (rule needs_cong) (simp_all add: emit_def)

lemma rso_del_exif [simp]:
  "remove_superficial_options (p(''exif'' := None)) = remove_superficial_options p"
  by (intro ext) (simp add: remove_superficial_options_apply superficial_keys_def)

lemma py_del_exif: "py_del ''exif'' p = Inr p' \<Longrightarrow> remove_superficial_options p' = remove_superficial_options p"
  by (auto simp: py_del_def split: if_splits)


lemma grows_refl [simp]: "grows w w []"
  by (simp add: grows_def)

lemma grows_trans:
  "grows w w' a \<Longrightarrow> grows w' w'' b \<Longrightarrow> grows w w'' (a @ b)"
  unfolding grows_def by (elim exE conjE) (rule_tac x="evs @ evsa" in exI, simp)

lemma grows_trans0: "grows w w' [] \<Longrightarrow> grows w' w'' b \<Longrightarrow> grows w w'' b"
  using grows_trans [of w w' "[]" w'' b] by simp

lemma appended_grows: "appended w w' cs ss rs \<Longrightarrow> queue w' = queue w \<Longrightarrow> grows w w' []"
  by (auto simp: appended_def grows_def)

lemma puts_checks [simp]: "puts (map (\<lambda>t. Check (s t) (d t) (b t)) ts) = []"
  by (induction ts) simp_all

section \<open>The scan worker\<close>

lemma scan_thumbnails_eq:
  "scan_thumbnails base params ts w =
     (if \<exists>t \<in> set ts. needs_to_be_generated w (a_filepath base) (build_path (v_filepath t)) params
      then Some base else None,
      w\<lparr>queue := queue w @ [Some 1],
        events := events w
          @ map (\<lambda>t. Check (a_filepath base) (build_path (v_filepath t))
                   (needs_to_be_generated w (a_filepath base) (build_path (v_filepath t)) params))
              (until_first
                 (\<lambda>t. needs_to_be_generated w (a_filepath base) (build_path (v_filepath t)) params)
                 ts)
          @ [Put (Some 1)]\<rparr>)"
proof (induction ts arbitrary: w)
  case Nil
  show ?case by (simp add: queue_put_def emit_def)
next
  case (Cons t ts)
  show ?case
    by (simp add: Cons.IH check_cache_def Let_def queue_put_def) (simp add: emit_def)
qed


lemma noncached_images_eq:
  assumes "env_open E w (a_filepath base) = Inr img"
  shows "noncached_images E base w =
     (Inr (if \<exists>t \<in> set (dict_values (a_thumbnails base)).
               needs_to_be_generated w (a_filepath base) (build_path (v_filepath t))
                 (strip_exif (a_options base) (image_params img (a_options base)))
           then Some base else None),
      w\<lparr>queue := queue w @ [Some 1],
        events := events w
          @ ImageOpen (a_filepath base)
          # map (\<lambda>t. Check (a_filepath base) (build_path (v_filepath t))
                   (needs_to_be_generated w (a_filepath base) (build_path (v_filepath t))
                      (strip_exif (a_options base) (image_params img (a_options base)))))
              (until_first
                 (\<lambda>t. needs_to_be_generated w (a_filepath base) (build_path (v_filepath t))
                        (strip_exif (a_options base) (image_params img (a_options base))))
                 (dict_values (a_thumbnails base)))
          @ [Put (Some 1)]\<rparr>)"
  using assms
  by (simp add: noncached_images_def scan_thumbnails_eq Let_def) (simp add: emit_def)

lemma noncached_images_grows:
  assumes "noncached_images E base w = (r, w')"
  shows "case r of Inr x \<Rightarrow> grows w w' [Some 1] | Inl e \<Rightarrow> w' = w"
proof (cases "env_open E w (a_filepath base)")
  case (Inl e)
  with assms show ?thesis by (auto simp: noncached_images_def)
next
  case (Inr img)
  from assms show ?thesis
    unfolding noncached_images_eq [OF Inr]
    by (auto simp: grows_def)
qed

text \<open>
  C6. For an asset whose source opens, the scan worker returns the asset if and only if
  some variant needs to be generated, and nothing when every variant is cached. It
  queries the cache for the variants in order, up to and including the first that needs
  to be generated, and no further. Its whole effect is the opening of the source, these
  queries and one unit on the queue: no image is copied, resized or saved, no record is
  made, and the file system and the cache store are as before.
\<close>

theorem noncached_images_scan:
  assumes "env_open E w (a_filepath base) = Inr img"
  shows "noncached_images E base w =
     (Inr (if \<exists>t \<in> set (dict_values (a_thumbnails base)).
               needs_to_be_generated w (a_filepath base) (build_path (v_filepath t))
                 (strip_exif (a_options base) (image_params img (a_options base)))
           then Some base else None),
      w\<lparr>queue := queue w @ [Some 1],
        events := events w
          @ ImageOpen (a_filepath base)
          # map (\<lambda>t. Check (a_filepath base) (build_path (v_filepath t))
                   (needs_to_be_generated w (a_filepath base) (build_path (v_filepath t))
                      (strip_exif (a_options base) (image_params img (a_options base)))))
              (until_first
                 (\<lambda>t. needs_to_be_generated w (a_filepath base) (build_path (v_filepath t))
                        (strip_exif (a_options base) (image_params img (a_options base))))
                 (dict_values (a_thumbnails base)))
          @ [Put (Some 1)]\<rparr>)"
  using assms by (rule noncached_images_eq)

theorem noncached_images_scan_witness:
  "noncached_images env_ok photo_two_variants world_cold =
     (Inr (Some photo_two_variants),
      world_cold\<lparr>queue := [Some 1],
        events := [ImageOpen ''a.png'', Check ''a.png'' ''build/a-100.png'' True,
                   Put (Some 1)]\<rparr>)"
proof -
  have opened: "env_open env_ok world_cold (a_filepath photo_two_variants) = Inr img_plain"
    by (simp add: env_ok_def)
  have stale: "needs_to_be_generated world_cold ''a.png'' ''build/a-100.png'' p" for p
    by (simp add: needs_to_be_generated_def world_cold_def)
  show ?thesis
    using noncached_images_scan [OF opened]
    by (simp add: photo_two_variants_def dict_values_def build_path_def stale)
      (simp add: world_cold_def)
qed

section \<open>The render worker\<close>

lemma appended_trans:
  "appended w w' cs ss rs \<Longrightarrow> appended w' w'' cs' ss' rs'
   \<Longrightarrow> appended w w'' (cs @ cs') (ss @ ss') (rs @ rs')"
  unfolding appended_def by (elim exE conjE) (rule_tac x="evs @ evsa" in exI, simp)

lemma save_image_Inr:
  assumes "save_image E im fp p w = (Inr u, w')"
  shows "fs w' fp \<noteq> None \<and> (\<forall>q. q \<noteq> fp \<longrightarrow> fs w' q = fs w q) \<and> cache w' = cache w
    \<and> queue w' = queue w \<and> persisted w' = persisted w \<and> maxblock w' = maxblock w
    \<and> appended w w' [] [fp] []"
  using assms
  by (auto simp: save_image_def emit_def appended_def split: save_result.splits)

lemma save_image_Inl:
  assumes "save_image E im fp p w = (Inl e, w')"
  shows "(\<forall>q. q \<noteq> fp \<longrightarrow> fs w' q = fs w q) \<and> cache w' = cache w
    \<and> queue w' = queue w \<and> persisted w' = persisted w \<and> maxblock w' = maxblock w
    \<and> appended w w' [] [] []"
  using assms
  by (auto simp: save_image_def emit_def appended_def split: save_result.splits)

lemma save_thumbnail_Inr:
  assumes "save_thumbnail E base t im width height fp p w = (Inr p', w')"
  shows "remove_superficial_options p' = remove_superficial_options p
    \<and> fs w' fp \<noteq> None \<and> (\<forall>q. q \<noteq> fp \<longrightarrow> fs w' q = fs w q) \<and> cache w' = cache w
    \<and> queue w' = queue w \<and> persisted w' = persisted w
    \<and> appended w w' [] [fp] []"
  using assms
  by (auto simp: save_thumbnail_def save_image_def emit_def log_def enlarge_buffer_def
      appended_def py_del_def Let_def
      split: prod.splits sum.splits if_splits option.splits save_result.splits)

lemma save_thumbnail_Inl:
  assumes "save_thumbnail E base t im width height fp p w = (Inl e, w')"
  shows "(\<forall>q. q \<noteq> fp \<longrightarrow> fs w' q = fs w q) \<and> cache w' = cache w
    \<and> queue w' = queue w \<and> persisted w' = persisted w
    \<and> appended w w' [] [] []"
  using assms
  by (auto simp: save_thumbnail_def save_image_def emit_def log_def enlarge_buffer_def
      appended_def py_del_def Let_def
      split: prod.splits sum.splits if_splits option.splits save_result.splits)

lemma render_thumbnail_Inr:
  assumes "render_thumbnail E base img t p w = (Inr p', w')"
  shows "remove_superficial_options p' = remove_superficial_options p
    \<and> (\<forall>q. q \<noteq> build_path (v_filepath t) \<longrightarrow> fs w' q = fs w q)
    \<and> (\<forall>k. k \<noteq> (a_filepath base, build_path (v_filepath t)) \<longrightarrow> cache w' k = cache w k)
    \<and> queue w' = queue w \<and> persisted w' = persisted w
    \<and> \<not> needs_to_be_generated w' (a_filepath base) (build_path (v_filepath t)) p'
    \<and> appended w w'
         [(build_path (v_filepath t),
           needs_to_be_generated w (a_filepath base) (build_path (v_filepath t)) p)]
         (if needs_to_be_generated w (a_filepath base) (build_path (v_filepath t)) p
          then [build_path (v_filepath t)] else [])
         (if needs_to_be_generated w (a_filepath base) (build_path (v_filepath t)) p
          then [(a_filepath base, build_path (v_filepath t))] else [])"
proof (cases "needs_to_be_generated w (a_filepath base) (build_path (v_filepath t)) p")
  case False
  with assms have "p' = p"
    and w': "w' = emit (Check (a_filepath base) (build_path (v_filepath t)) False) w"
    by (simp_all add: render_thumbnail_def check_cache_def Let_def)
  with False show ?thesis
    by (simp add: appended_def) (simp add: emit_def)
next
  case True
  with assms obtain im width height w1 w2 where
    st: "save_thumbnail E base t im width height (build_path (v_filepath t)) p w1 = (Inr p', w2)"
    and w1: "w1 = log LDebug ''(%s) Creating thumbnail %s: size=%s''
                   [a_filepath base, build_path (v_filepath t)]
                   (emit (Check (a_filepath base) (build_path (v_filepath t)) True) w)"
    and w': "w' = cache_picture (a_filepath base) (build_path (v_filepath t)) p'
                   (log LDebug ''(%s) Done creating thumbnail %s: size=%s''
                      [a_filepath base, build_path (v_filepath t)] w2)"
    by (auto simp: render_thumbnail_def check_cache_def Let_def
        split: option.splits sum.splits prod.splits)
  from save_thumbnail_Inr [OF st] True show ?thesis
    by (auto simp: w1 w' appended_def emit_def log_def cache_picture_def
        needs_to_be_generated_def fingerprint_of_def)
qed

lemma render_thumbnail_Inl:
  assumes "render_thumbnail E base img t p w = (Inl e, w')"
  shows "(\<forall>q. q \<noteq> build_path (v_filepath t) \<longrightarrow> fs w' q = fs w q)
    \<and> cache w' = cache w \<and> queue w' = queue w \<and> persisted w' = persisted w
    \<and> needs_to_be_generated w (a_filepath base) (build_path (v_filepath t)) p
    \<and> appended w w' [(build_path (v_filepath t), True)] [] []"
  using assms
  by (auto simp: render_thumbnail_def check_cache_def Let_def emit_def log_def appended_def
      split: option.splits sum.splits prod.splits if_splits
      dest!: save_thumbnail_Inl)

lemma needs_frame:
  "fs w' s = fs w s \<Longrightarrow> fs w' d = fs w d
   \<Longrightarrow> cache w' (s, d) = cache w (s, d)
   \<Longrightarrow> remove_superficial_options p' = remove_superficial_options p
   \<Longrightarrow> needs_to_be_generated w' s d p' = needs_to_be_generated w s d p"
  by (simp add: needs_to_be_generated_def fingerprint_of_def cong: option.case_cong)

lemma render_loop_Inr:
  assumes "render_loop E base img ts p w = (Inr p', w')"
    and "distinct (map dst ts)"
    and "a_filepath base \<notin> set (map dst ts)"
  shows "remove_superficial_options p' = remove_superficial_options p
    \<and> (\<forall>q. q \<notin> set (map dst ts) \<longrightarrow> fs w' q = fs w q)
    \<and> (\<forall>s d. d \<notin> set (map dst ts) \<longrightarrow> cache w' (s, d) = cache w (s, d))
    \<and> queue w' = queue w \<and> persisted w' = persisted w
    \<and> (\<forall>t \<in> set ts. \<not> needs_to_be_generated w' (a_filepath base) (dst t) p')
    \<and> appended w w'
         (map (\<lambda>t. (dst t, needs_to_be_generated w (a_filepath base) (dst t) p)) ts)
         (map dst (filter (\<lambda>t. needs_to_be_generated w (a_filepath base) (dst t) p) ts))
         (map (\<lambda>t. (a_filepath base, dst t))
            (filter (\<lambda>t. needs_to_be_generated w (a_filepath base) (dst t) p) ts))"
  using assms
proof (induction ts arbitrary: p w)
  case Nil
  then show ?case by (simp add: appended_def)
next
  case (Cons t ts)
  let ?src = "a_filepath base"
  from Cons.prems(1) obtain p1 w1 where
    rt: "render_thumbnail E base img t p w = (Inr p1, w1)"
    and rest: "render_loop E base img ts p1 w1 = (Inr p', w')"
    by (auto split: prod.splits sum.splits)
  note one = render_thumbnail_Inr [OF rt]
  from Cons.prems have d: "distinct (map dst ts)" and nin: "?src \<notin> set (map dst ts)"
    and t_new: "dst t \<notin> set (map dst ts)" and src_t: "?src \<noteq> dst t"
    by auto
  note ih = Cons.IH [OF rest d nin]
  have same: "needs_to_be_generated w1 ?src (dst u) p1 = needs_to_be_generated w ?src (dst u) p"
    if "u \<in> set ts" for u
  proof (rule needs_frame)
    from that have "dst u \<in> set (map dst ts)" by simp
    with t_new have ne: "dst u \<noteq> dst t" by metis
    from one src_t show "fs w1 ?src = fs w ?src" by simp
    from one ne show "fs w1 (dst u) = fs w (dst u)" by simp
    from one ne show "cache w1 (?src, dst u) = cache w (?src, dst u)" by simp
    from one show "remove_superficial_options p1 = remove_superficial_options p" by simp
  qed
  have m: "map (\<lambda>t. (dst t, needs_to_be_generated w1 ?src (dst t) p1)) ts
         = map (\<lambda>t. (dst t, needs_to_be_generated w ?src (dst t) p)) ts"
    using same by simp
  have f: "filter (\<lambda>t. needs_to_be_generated w1 ?src (dst t) p1) ts
         = filter (\<lambda>t. needs_to_be_generated w ?src (dst t) p) ts"
    using same by (simp cong: filter_cong)
  have head: "\<not> needs_to_be_generated w' ?src (dst t) p'"
  proof -
    have "needs_to_be_generated w' ?src (dst t) p' = needs_to_be_generated w1 ?src (dst t) p1"
    proof (rule needs_frame)
      from ih nin show "fs w' ?src = fs w1 ?src" by simp
      from ih t_new show "fs w' (dst t) = fs w1 (dst t)" by simp
      from ih t_new show "cache w' (?src, dst t) = cache w1 (?src, dst t)" by simp
      from ih show "remove_superficial_options p' = remove_superficial_options p1" by simp
    qed
    with one show ?thesis by simp
  qed
  have app: "appended w w'
         (map (\<lambda>t. (dst t, needs_to_be_generated w ?src (dst t) p)) (t # ts))
         (map dst (filter (\<lambda>t. needs_to_be_generated w ?src (dst t) p) (t # ts)))
         (map (\<lambda>t. (?src, dst t))
            (filter (\<lambda>t. needs_to_be_generated w ?src (dst t) p) (t # ts)))"
    using appended_trans [OF one [THEN conjunct2, THEN conjunct2, THEN conjunct2,
          THEN conjunct2, THEN conjunct2, THEN conjunct2]
        ih [THEN conjunct2, THEN conjunct2, THEN conjunct2,
          THEN conjunct2, THEN conjunct2, THEN conjunct2]]
    by (cases "needs_to_be_generated w ?src (dst t) p") (simp_all add: m f)
  from one ih have "remove_superficial_options p' = remove_superficial_options p" by simp
  moreover from one ih have "\<forall>q. q \<notin> set (map dst (t # ts)) \<longrightarrow> fs w' q = fs w q" by simp
  moreover from one ih
  have "\<forall>s d. d \<notin> set (map dst (t # ts)) \<longrightarrow> cache w' (s, d) = cache w (s, d)" by simp
  moreover from one ih have "queue w' = queue w" "persisted w' = persisted w" by simp_all
  moreover from head ih
  have "\<forall>u \<in> set (t # ts). \<not> needs_to_be_generated w' ?src (dst u) p'" by simp
  ultimately show ?case using app by blast
qed

lemma auto_orient_frame:
  assumes "auto_orient E base img p w = (r, w')"
  shows "fs w' = fs w \<and> cache w' = cache w \<and> queue w' = queue w
    \<and> persisted w' = persisted w \<and> maxblock w' = maxblock w \<and> appended w w' [] [] []"
  using assms
  by (auto simp: auto_orient_def Let_def log_def emit_def appended_def
      split: if_splits option.splits sum.splits)

lemma auto_orient_params:
  assumes "auto_orient E base img p w = (Inr (img', p'), w')"
  shows "remove_superficial_options p' = remove_superficial_options p"
  using assms
  by (auto simp: auto_orient_def Let_def py_del_def
      split: if_splits option.splits sum.splits)

lemma rso_strip_exif [simp]:
  "remove_superficial_options (strip_exif opts p) = remove_superficial_options p"
  by (simp add: strip_exif_def)

lemma needs_rso:
  "remove_superficial_options p' = remove_superficial_options p
   \<Longrightarrow> needs_to_be_generated w s d p' = needs_to_be_generated w s d p"
  by (rule needs_frame) simp_all


lemma render_thumbnail_grows:
  assumes "render_thumbnail E base img t p w = (r, w')"
  shows "grows w w' []"
proof (cases r)
  case (Inl e)
  with assms render_thumbnail_Inl show ?thesis by (blast intro: appended_grows)
next
  case (Inr p')
  with assms render_thumbnail_Inr show ?thesis by (blast intro: appended_grows)
qed

lemma render_loop_grows:
  "render_loop E base img ts p w = (r, w') \<Longrightarrow> grows w w' []"
proof (induction ts arbitrary: p w)
  case Nil
  then show ?case by simp
next
  case (Cons t ts)
  obtain r1 w1 where rt: "render_thumbnail E base img t p w = (r1, w1)"
    by (cases "render_thumbnail E base img t p w")
  note g1 = render_thumbnail_grows [OF rt]
  show ?case
  proof (cases r1)
    case (Inl e)
    with Cons.prems rt g1 show ?thesis by simp
  next
    case (Inr p1)
    with Cons.prems rt have "render_loop E base img ts p1 w1 = (r, w')" by simp
    from grows_trans0 [OF g1 Cons.IH [OF this]] show ?thesis .
  qed
qed

lemma render_thumbnails_grows:
  assumes "render_thumbnails E base w = (r, w')"
  shows "case r of Inr x \<Rightarrow>
           (\<exists>evs. events w' = events w @ evs @ [Put (Some 1)] \<and> Flush \<notin> set evs
              \<and> puts evs = [] \<and> queue w' = queue w @ [Some 1])
         | Inl e \<Rightarrow> grows w w' []"
proof -
  let ?w0 = "log LDebug ''(%s) Rendering thumbnails'' [a_filepath base] w"
  have g0: "grows w ?w0 []" by (simp add: grows_def log_def emit_def)
  show ?thesis
  proof (cases "env_open E ?w0 (a_filepath base)")
    case (Inl e)
    with assms g0 show ?thesis by (auto simp: render_thumbnails_def Let_def)
  next
    case (Inr img)
    let ?w1 = "emit (ImageOpen (a_filepath base)) ?w0"
    have g1: "grows w ?w1 []" by (simp add: grows_def log_def emit_def)
    obtain r2 w2 where ao: "auto_orient E base img (image_params img (a_options base)) ?w1 = (r2, w2)"
      by (cases "auto_orient E base img (image_params img (a_options base)) ?w1")
    from auto_orient_frame [OF ao] have "grows ?w1 w2 []" by (blast intro: appended_grows)
    with g1 have g2: "grows w w2 []" by (rule grows_trans0)
    show ?thesis
    proof (cases r2)
      case (Inl e)
      with assms Inr ao g2 show ?thesis by (auto simp: render_thumbnails_def Let_def)
    next
      case r2: (Inr ip)
      obtain img1 p1 where ip: "ip = (img1, p1)" by (cases ip)
      obtain r3 w3 where lp: "render_loop E base img1 (dict_values (a_thumbnails base))
          (strip_exif (a_options base) p1) w2 = (r3, w3)"
        by (cases "render_loop E base img1 (dict_values (a_thumbnails base))
          (strip_exif (a_options base) p1) w2")
      from grows_trans0 [OF g2 render_loop_grows [OF lp]] have g3: "grows w w3 []" .
      show ?thesis
      proof (cases r3)
        case (Inl e)
        with assms Inr ao r2 ip lp g3 show ?thesis
          by (auto simp: render_thumbnails_def Let_def)
      next
        case (Inr p3)
        with assms \<open>env_open E ?w0 (a_filepath base) = Inr img\<close> ao r2 ip lp
        have "r = Inr ()" "w' = queue_put (Some 1) w3"
          by (auto simp: render_thumbnails_def Let_def)
        with g3 show ?thesis
          by (auto simp: grows_def queue_put_def emit_def)
      qed
    qed
  qed
qed

text \<open>
  C3. When the render worker returns normally on an asset whose variants have distinct
  destination paths, none of them the source: it has queried the cache once for every
  variant, in order; the answer for a variant is whether the variant needed to be
  generated when the worker started; the variants saved (and recorded) are exactly
  those whose answer was true, the others are skipped; and afterwards no variant of the
  asset needs to be generated. So with one variant cached and one missing, only the
  missing one is regenerated and both are cached afterwards.
\<close>

theorem render_thumbnails_regenerates_stale_only:
  assumes run: "render_thumbnails E base w = (Inr (), w')"
    and dist: "distinct (map (\<lambda>t. build_path (v_filepath t)) (dict_values (a_thumbnails base)))"
    and src: "a_filepath base
        \<notin> set (map (\<lambda>t. build_path (v_filepath t)) (dict_values (a_thumbnails base)))"
  shows "\<exists>img evs.
      env_open E (log LDebug ''(%s) Rendering thumbnails'' [a_filepath base] w) (a_filepath base)
        = Inr img
    \<and> events w' = events w @ evs
    \<and> checks evs =
        map (\<lambda>t. (build_path (v_filepath t),
                  needs_to_be_generated w (a_filepath base) (build_path (v_filepath t))
                    (image_params img (a_options base))))
          (dict_values (a_thumbnails base))
    \<and> saved_ok evs =
        map (\<lambda>t. build_path (v_filepath t))
          (filter (\<lambda>t. needs_to_be_generated w (a_filepath base) (build_path (v_filepath t))
                         (image_params img (a_options base)))
             (dict_values (a_thumbnails base)))
    \<and> records evs =
        map (\<lambda>t. (a_filepath base, build_path (v_filepath t)))
          (filter (\<lambda>t. needs_to_be_generated w (a_filepath base) (build_path (v_filepath t))
                         (image_params img (a_options base)))
             (dict_values (a_thumbnails base)))
    \<and> (\<forall>t \<in> set (dict_values (a_thumbnails base)).
          \<not> needs_to_be_generated w' (a_filepath base) (build_path (v_filepath t))
              (image_params img (a_options base)))"
proof -
  let ?src = "a_filepath base"
  let ?ts = "dict_values (a_thumbnails base)"
  let ?w0 = "log LDebug ''(%s) Rendering thumbnails'' [?src] w"
  from run obtain img img1 p1 w1 p2 w2 where
    op: "env_open E ?w0 ?src = Inr img"
    and ao: "auto_orient E base img (image_params img (a_options base))
               (emit (ImageOpen ?src) ?w0) = (Inr (img1, p1), w1)"
    and lp: "render_loop E base img1 ?ts (strip_exif (a_options base) p1) w1 = (Inr p2, w2)"
    and w': "w' = queue_put (Some 1) w2"
    by (auto simp: render_thumbnails_def Let_def split: sum.splits prod.splits)
  let ?P = "image_params img (a_options base)"
  let ?p = "strip_exif (a_options base) p1"
  note fr = auto_orient_frame [OF ao]
  note loop = render_loop_Inr [OF lp dist src]
  have rp: "remove_superficial_options ?p = remove_superficial_options ?P"
    using auto_orient_params [OF ao] by simp
  from loop have rp2: "remove_superficial_options p2 = remove_superficial_options ?P"
    using rp by simp
  have w1w: "needs_to_be_generated w1 = needs_to_be_generated w"
  proof -
    have "needs_to_be_generated w1 = needs_to_be_generated (emit (ImageOpen ?src) ?w0)"
      using fr by (intro needs_cong) simp_all
    then show ?thesis by (simp add: log_def)
  qed
  have st: "needs_to_be_generated w1 ?src d ?p = needs_to_be_generated w ?src d ?P" for d
    by (simp add: w1w needs_rso [OF rp])
  from fr obtain e0 where e0: "events w1 = events w @ e0"
    and e0p: "checks e0 = []" "saved_ok e0 = []" "records e0 = []"
    by (auto simp: appended_def log_def emit_def)
  from loop obtain e1 where e1: "events w2 = events w1 @ e1"
    and c1: "checks e1 = map (\<lambda>t. (build_path (v_filepath t),
                 needs_to_be_generated w1 ?src (build_path (v_filepath t)) ?p)) ?ts"
    and s1: "saved_ok e1 = map (\<lambda>t. build_path (v_filepath t))
                 (filter (\<lambda>t. needs_to_be_generated w1 ?src (build_path (v_filepath t)) ?p) ?ts)"
    and r1: "records e1 = map (\<lambda>t. (?src, build_path (v_filepath t)))
                 (filter (\<lambda>t. needs_to_be_generated w1 ?src (build_path (v_filepath t)) ?p) ?ts)"
    unfolding appended_def by blast
  have ev: "events w' = events w @ (e0 @ e1 @ [Put (Some 1)])"
    by (simp add: w' queue_put_def emit_def e1 e0)
  have after: "\<forall>t \<in> set ?ts.
      \<not> needs_to_be_generated w' ?src (build_path (v_filepath t)) ?P"
  proof
    fix t assume "t \<in> set ?ts"
    with loop have "\<not> needs_to_be_generated w2 ?src (build_path (v_filepath t)) p2" by blast
    moreover have "needs_to_be_generated w' = needs_to_be_generated w2"
      by (rule needs_cong) (simp_all add: w' queue_put_def emit_def)
    ultimately show "\<not> needs_to_be_generated w' ?src (build_path (v_filepath t)) ?P"
      by (simp add: needs_rso [OF rp2])
  qed
  show ?thesis
    apply (rule exI [of _ img])
    apply (rule exI [of _ "e0 @ e1 @ [Put (Some 1)]"])
    using op ev after by (simp add: e0p c1 s1 r1 st)
qed


theorem render_thumbnails_regenerates_stale_only_witness:
  "fst (render_thumbnails env_ok photo_two_variants world_small_cached) = Inr ()
   \<and> checks (events (snd (render_thumbnails env_ok photo_two_variants world_small_cached)))
       = [(''build/a-100.png'', False), (''build/a-800.png'', True)]
   \<and> saved_ok (events (snd (render_thumbnails env_ok photo_two_variants world_small_cached)))
       = [''build/a-800.png'']
   \<and> \<not> needs_to_be_generated
         (snd (render_thumbnails env_ok photo_two_variants world_small_cached))
         ''a.png'' ''build/a-100.png'' (image_params img_plain Map.empty)
   \<and> \<not> needs_to_be_generated
         (snd (render_thumbnails env_ok photo_two_variants world_small_cached))
         ''a.png'' ''build/a-800.png'' (image_params img_plain Map.empty)"
proof -
  let ?w' = "snd (render_thumbnails env_ok photo_two_variants world_small_cached)"
  have ok: "fst (render_thumbnails env_ok photo_two_variants world_small_cached) = Inr ()"
    by (simp add: render_simps run_simps env_ok_def photo_two_variants_def
        world_small_cached_def world_cold_def img_plain_def)
  then have run: "render_thumbnails env_ok photo_two_variants world_small_cached = (Inr (), ?w')"
    by (simp add: prod_eq_iff)
  have dist: "distinct (map (\<lambda>t. build_path (v_filepath t))
                 (dict_values (a_thumbnails photo_two_variants)))"
    by (simp add: photo_two_variants_def dict_values_def build_path_def)
  have src: "a_filepath photo_two_variants
      \<notin> set (map (\<lambda>t. build_path (v_filepath t))
                 (dict_values (a_thumbnails photo_two_variants)))"
    by (simp add: photo_two_variants_def dict_values_def build_path_def)
  have small: "\<not> needs_to_be_generated world_small_cached ''a.png'' ''build/a-100.png''
                   (image_params img_plain Map.empty)"
    by (simp add: needs_to_be_generated_def world_small_cached_def world_cold_def
        cache_picture_def fingerprint_of_def emit_def)
  have large: "needs_to_be_generated world_small_cached ''a.png'' ''build/a-800.png'' p" for p
    by (simp add: needs_to_be_generated_def world_small_cached_def world_cold_def
        cache_picture_def emit_def)
  have ev0: "events world_small_cached = []"
    by (simp add: world_small_cached_def)
  from render_thumbnails_regenerates_stale_only [OF run dist src] ok
  show ?thesis
    by (auto simp: env_ok_def photo_two_variants_def dict_values_def build_path_def
        small large ev0)
qed

section \<open>The sequential encoders\<close>

lemma grows_emit:
  "grows w0 w [] \<Longrightarrow> e \<noteq> Flush \<Longrightarrow> puts [e] = [] \<Longrightarrow> grows w0 (emit e w) []"
  by (auto simp: grows_def emit_def)

lemma grows_log [intro!]: "grows w0 w [] \<Longrightarrow> grows w0 (log l m a w) []"
  by (simp add: log_def grows_emit)

lemma grows_check [intro!]: "grows w0 w [] \<Longrightarrow> grows w0 (emit (Check s t b) w) []"
  by (simp add: grows_emit)

lemma grows_cache_picture [intro!]:
  "grows w0 w [] \<Longrightarrow> grows w0 (cache_picture s t opts w) []"
  by (auto simp: grows_def cache_picture_def emit_def)

lemma grows_run_command:
  "run_command E argv w = (r, w') \<Longrightarrow> grows w0 w [] \<Longrightarrow> grows w0 w' []"
  by (auto simp: run_command_def grows_def emit_def split: sum.splits)

lemma video_reencodes_grows:
  "grows w0 w [] \<Longrightarrow> video_reencodes E base cmd ts w = (r, w') \<Longrightarrow> grows w0 w' []"
proof (induction ts arbitrary: w)
  case Nil
  then show ?case by simp
next
  case (Cons t ts)
  from Cons.prems show ?case
    by (auto simp: check_cache_def Let_def
        split: if_splits sum.splits prod.splits
        intro: grows_run_command Cons.IH)
qed

lemma video_thumbnails_grows:
  "grows w0 w [] \<Longrightarrow> video_thumbnails E base ts u c f w = (r, w') \<Longrightarrow> grows w0 w' []"
proof (induction ts arbitrary: w u c f)
  case Nil
  then show ?case by simp
next
  case (Cons t ts)
  from Cons.prems show ?case
    by (auto simp: check_cache_def Let_def
        split: if_splits sum.splits prod.splits
        intro: Cons.IH)
qed

lemma video_record_grows:
  "grows w0 w [] \<Longrightarrow> grows w0 (video_record base ts f w) []"
  by (induction ts arbitrary: w) auto

lemma render_video_grows:
  assumes "render_video E base w = (r, w')"
  shows "grows w w' []"
proof -
  let ?w0 = "log LDebug ''(%s) Rendering thumbnails and reencodes'' [a_filepath base] w"
  have g0: "grows w ?w0 []" by (rule grows_log) simp
  obtain r1 w1 where
    re: "(if a_reencodes base \<noteq> [] then
            video_reencodes E base (video_reencodecmd E base) (dict_values (a_reencodes base)) ?w0
          else (Inr Continue, ?w0)) = (r1, w1)"
    by (cases "if a_reencodes base \<noteq> [] then
            video_reencodes E base (video_reencodecmd E base) (dict_values (a_reencodes base)) ?w0
          else (Inr Continue, ?w0)")
  have g1: "grows w w1 []"
    using re g0 by (auto split: if_splits intro: video_reencodes_grows)
  obtain u c f w2 where
    th: "video_thumbnails E base (dict_values (a_thumbnails base)) [] [] None w1
           = ((u, c, f), w2)"
    by (cases "video_thumbnails E base (dict_values (a_thumbnails base)) [] [] None w1") auto
  from video_thumbnails_grows [OF g1 th] have g2: "grows w w2 []" .
  have fin: "grows w w3 []" if "run_command E argv w2 = (r3, w3)" for argv r3 w3
    using that g2 by (rule grows_run_command)
  from assms re th show ?thesis
    using g1 g2 fin
    by (auto simp: render_video_def Let_def
        split: if_splits sum.splits prod.splits flow.splits option.splits
        intro: video_record_grows)
qed

lemma audio_reencodes_grows:
  "grows w0 w [] \<Longrightarrow> audio_reencodes E base cmd ts w = (r, w') \<Longrightarrow> grows w0 w' []"
proof (induction ts arbitrary: w)
  case Nil
  then show ?case by simp
next
  case (Cons t ts)
  from Cons.prems show ?case
    by (auto simp: check_cache_def Let_def
        split: if_splits sum.splits prod.splits
        intro: grows_run_command Cons.IH)
qed

lemma reencode_audio_grows:
  assumes "reencode_audio E base w = (r, w')"
  shows "grows w w' []"
  using assms
  by (auto simp: reencode_audio_def Let_def split: if_splits
      intro: audio_reencodes_grows grows_refl)

section \<open>The coordinator\<close>

lemma grows_emitted: "grows w w' ms \<Longrightarrow> emitted w w' ms"
  by (auto simp: grows_def emitted_def)

lemma emitted_refl [simp]: "emitted w w []"
  by (simp add: emitted_def)

lemma emitted_trans:
  "emitted w w' a \<Longrightarrow> emitted w' w'' b \<Longrightarrow> emitted w w'' (a @ b)"
  unfolding emitted_def by (elim exE conjE) (rule_tac x="evs @ evsa" in exI, simp)

lemma concat_chunks: "0 < c \<Longrightarrow> concat (chunks c xs) = xs"
proof (induction c xs rule: chunks.induct)
  case (1 c xs)
  then show ?case by (subst chunks.simps) auto
qed

lemma chunks_Nil [simp]: "chunks c [] = []"
  by (subst chunks.simps) simp

lemma chunksize_pos: "0 < n \<Longrightarrow> 0 < chunksize n nproc"
  by (cases "n mod (nproc * 4) = 0") (auto simp: chunksize_def Let_def)

lemma concat_pool_chunks: "concat (chunks (chunksize (length xs) nproc) xs) = xs"
  by (cases xs) (simp_all add: concat_chunks chunksize_pos)

lemma unit_workerD:
  "unit_worker f \<Longrightarrow> f x w = (Inr y, w') \<Longrightarrow> grows w w' [Some 1]"
  "unit_worker f \<Longrightarrow> f x w = (Inl e, w') \<Longrightarrow> grows w w' []"
  unfolding unit_worker_def by (erule allE [of _ x], erule allE [of _ w], simp)+

lemma grows_replicate:
  "grows w w' (replicate n (Some 1)) \<Longrightarrow> grows w' w'' (replicate m (Some 1))
   \<Longrightarrow> grows w w'' (replicate (n + m) (Some 1))"
  by (drule (1) grows_trans) (simp add: replicate_add)

lemma run_chunk_grows:
  assumes W: "unit_worker f"
  shows "run_chunk f xs w = (r, w')
    \<Longrightarrow> \<exists>n. n \<le> length xs \<and> grows w w' (replicate n (Some 1))
          \<and> (case r of Inr ys \<Rightarrow> n = length xs \<and> length ys = length xs | Inl e \<Rightarrow> True)"
proof (induction xs arbitrary: w r w')
  case Nil
  then show ?case by auto
next
  case (Cons x xs)
  obtain r1 w1 where f: "f x w = (r1, w1)" by (cases "f x w")
  show ?case
  proof (cases r1)
    case (Inl e)
    with Cons.prems f have "r = Inl e" "w' = w1" by simp_all
    with unit_workerD(2) [OF W f [unfolded Inl]] show ?thesis
      by (intro exI [of _ 0]) simp
  next
    case (Inr y)
    note g1 = unit_workerD(1) [OF W f [unfolded Inr]]
    obtain r2 w2 where rc: "run_chunk f xs w1 = (r2, w2)" by (cases "run_chunk f xs w1")
    from Cons.IH [OF rc] obtain n where n: "n \<le> length xs"
      "grows w1 w2 (replicate n (Some 1))"
      "case r2 of Inr ys \<Rightarrow> n = length xs \<and> length ys = length xs | Inl e \<Rightarrow> True"
      by blast
    from g1 n(2) have g: "grows w w2 (replicate (Suc n) (Some 1))"
      using grows_replicate [of w w1 1 w2 n] by simp
    from Cons.prems f Inr rc have "w' = w2"
      and r: "r = (case r2 of Inl e \<Rightarrow> Inl e | Inr ys \<Rightarrow> Inr (y # ys))"
      by (auto split: sum.splits)
    with g n(1,3) show ?thesis
      by (intro exI [of _ "Suc n"]) (auto split: sum.splits)
  qed
qed

lemma run_chunks_grows:
  assumes W: "unit_worker f"
  shows "run_chunks f cs w = (r, w')
    \<Longrightarrow> \<exists>n. n \<le> length (concat cs) \<and> grows w w' (replicate n (Some 1))
          \<and> (case r of Inr ys \<Rightarrow> n = length (concat cs) \<and> length ys = length (concat cs)
              | Inl e \<Rightarrow> True)"
proof (induction cs arbitrary: w r w')
  case Nil
  then show ?case by auto
next
  case (Cons c cs)
  obtain r1 w1 where c: "run_chunk f c w = (r1, w1)" by (cases "run_chunk f c w")
  from run_chunk_grows [OF W c] obtain n where n: "n \<le> length c"
    "grows w w1 (replicate n (Some 1))"
    "case r1 of Inr ys \<Rightarrow> n = length c \<and> length ys = length c | Inl e \<Rightarrow> True"
    by blast
  obtain r2 w2 where rc: "run_chunks f cs w1 = (r2, w2)" by (cases "run_chunks f cs w1")
  from Cons.IH [OF rc] obtain m where m: "m \<le> length (concat cs)"
    "grows w1 w2 (replicate m (Some 1))"
    "case r2 of Inr ys \<Rightarrow> m = length (concat cs) \<and> length ys = length (concat cs)
     | Inl e \<Rightarrow> True"
    by blast
  from grows_replicate [OF n(2) m(2)] have g: "grows w w2 (replicate (n + m) (Some 1))" .
  from Cons.prems c rc have "w' = w2"
    and r: "r = (case r1 of Inl e \<Rightarrow> Inl e
                 | Inr ys \<Rightarrow> (case r2 of Inl e \<Rightarrow> Inl e | Inr zs \<Rightarrow> Inr (ys @ zs)))"
    by (auto split: sum.splits prod.splits)
  with g n(1,3) m(1,3) show ?case
    by (intro exI [of _ "n + m"]) (auto split: sum.splits)
qed

lemma pool_map_grows:
  assumes W: "unit_worker f"
    and pm: "pool_map E st nproc f xs w = (r, w')"
  shows "r \<noteq> Blocked
    \<and> (\<exists>n. n \<le> length xs \<and> grows w w' (replicate n (Some 1))
          \<and> (case r of Returned ys \<Rightarrow> n = length xs \<and> length ys = length xs | _ \<Rightarrow> True))"
proof -
  obtain r1 w1 where rc: "run_chunks f (chunks (chunksize (length xs) nproc) xs) w = (r1, w1)"
    by (cases "run_chunks f (chunks (chunksize (length xs) nproc) xs) w")
  from run_chunks_grows [OF W rc, unfolded concat_pool_chunks]
  obtain n where n: "n \<le> length xs"
    "grows w w1 (replicate n (Some 1))"
    "case r1 of Inr ys \<Rightarrow> n = length xs \<and> length ys = length xs | Inl e \<Rightarrow> True"
    by blast
  from pm rc have "w' = w1"
    and "r = (case env_site E w1 st of Some e \<Rightarrow> Raised e
              | None \<Rightarrow> (case r1 of Inl e \<Rightarrow> Raised e | Inr ys \<Rightarrow> Returned ys))"
    by (auto simp: pool_map_def split: option.splits sum.splits)
  with n show ?thesis
    by (auto split: option.splits sum.splits intro!: exI [of _ n])
qed

lemma handle_pbar_units:
  "handle_pbar (replicate n (Some 1) @ None # rest) = Some (n, rest)"
  by (induction n) simp_all

lemma handle_pbar_end: "\<exists>k q'. handle_pbar (q @ [None]) = Some (k, q')"
proof (induction q)
  case Nil
  show ?case by simp
next
  case (Cons m q)
  then show ?case by (cases m) auto
qed

lemma process_join_after_put:
  assumes "process_join E (queue_put None w) = (r, w')"
  shows "r \<noteq> Blocked \<and> events w' = events (queue_put None w)"
proof -
  from handle_pbar_end [of "queue w"] obtain k q' where
    "handle_pbar (queue (queue_put None w)) = Some (k, q')"
    by (auto simp: queue_put_def emit_def)
  with assms show ?thesis
    by (auto simp: process_join_def split: option.splits)
qed

lemma progress_phase_any:
  assumes W: "unit_worker f"
    and ph: "progress_phase E nproc st f xs w = (r, w')"
  shows "r \<noteq> Blocked \<and> (\<exists>ms. emitted w w' ms)"
proof -
  obtain r1 w1 where pm: "pool_map E st nproc f xs w = (r1, w1)"
    by (cases "pool_map E st nproc f xs w")
  from pool_map_grows [OF W pm] obtain n where
    nb: "r1 \<noteq> Blocked" and g: "grows w w1 (replicate n (Some 1))"
    by blast
  from g have e1: "emitted w w1 (replicate n (Some 1))" by (rule grows_emitted)
  have e2: "emitted w1 (queue_put None w1) [None]"
    by (simp add: emitted_def queue_put_def emit_def)
  obtain r2 w2 where pj: "process_join E (queue_put None w1) = (r2, w2)"
    by (cases "process_join E (queue_put None w1)")
  from process_join_after_put [OF pj] have nb2: "r2 \<noteq> Blocked"
    and ev2: "events w2 = events (queue_put None w1)" by simp_all
  from emitted_trans [OF e1 e2] ev2 have e3: "emitted w w2 (replicate n (Some 1) @ [None])"
    by (simp add: emitted_def)
  have x0: "\<exists>ms. emitted w w ms" by (rule exI [of _ "[]"]) simp
  from e1 have x1: "\<exists>ms. emitted w w1 ms" ..
  from emitted_trans [OF e1 e2] have x2: "\<exists>ms. emitted w (queue_put None w1) ms" ..
  from e3 have x3: "\<exists>ms. emitted w w2 ms" ..
  from ph pm pj nb nb2 x0 x1 x2 x3 show ?thesis
    by (auto simp: progress_phase_def then_do_def at_site_def step_def
        split: option.splits outcome.splits)
qed

lemma progress_phase_returned:
  assumes W: "unit_worker f"
    and ph: "progress_phase E nproc st f xs w = (Returned ys, w')"
    and q: "queue w = []"
  shows "emitted w w' (replicate (length xs) (Some 1) @ [None]) \<and> queue w' = []
    \<and> length ys = length xs"
proof -
  obtain r1 w1 where pm: "pool_map E st nproc f xs w = (r1, w1)"
    by (cases "pool_map E st nproc f xs w")
  from ph pm obtain zs where r1: "r1 = Returned zs"
    by (auto simp: progress_phase_def then_do_def at_site_def
        split: option.splits outcome.splits)
  from pool_map_grows [OF W pm] r1 have
    g: "grows w w1 (replicate (length xs) (Some 1))" and len: "length zs = length xs"
    by auto
  from g q have q1: "queue w1 = replicate (length xs) (Some 1)" by (auto simp: grows_def)
  from g have e1: "emitted w w1 (replicate (length xs) (Some 1))" by (rule grows_emitted)
  have e2: "emitted w1 (queue_put None w1) [None]"
    by (simp add: emitted_def queue_put_def emit_def)
  have hp: "handle_pbar (queue (queue_put None w1)) = Some (length xs, [])"
    using handle_pbar_units [of "length xs" "[]"] by (simp add: queue_put_def emit_def q1)
  from ph pm r1 hp have "ys = zs" and w': "w' = (queue_put None w1)\<lparr>queue := []\<rparr>"
    by (auto simp: progress_phase_def then_do_def at_site_def step_def process_join_def
        split: option.splits outcome.splits)
  with emitted_trans [OF e1 e2] len show ?thesis
    by (simp add: emitted_def)
qed

lemma safeD: "safe m \<Longrightarrow> m w = (r, w') \<Longrightarrow> r \<noteq> Blocked \<and> (\<exists>ms. emitted w w' ms)"
  by (simp add: safe_def)

lemma safe_then_do:
  assumes "safe m" and "\<And>x. safe (k x)"
  shows "safe (then_do m k)"
  unfolding safe_def
proof (intro allI impI)
  fix w r w'
  assume td: "then_do m k w = (r, w')"
  obtain r1 w1 where m: "m w = (r1, w1)" by (cases "m w")
  from safeD [OF assms(1) m] obtain ms where nb: "r1 \<noteq> Blocked" and e1: "emitted w w1 ms"
    by blast
  show "r \<noteq> Blocked \<and> (\<exists>ms. emitted w w' ms)"
  proof (cases r1)
    case (Returned x)
    with td m have "k x w1 = (r, w')" by (simp add: then_do_def)
    from safeD [OF assms(2) this] obtain ms' where "r \<noteq> Blocked" "emitted w1 w' ms'"
      by blast
    with emitted_trans [OF e1] show ?thesis by blast
  next
    case (Raised e)
    with td m e1 show ?thesis by (auto simp: then_do_def)
  next
    case Blocked
    with nb show ?thesis by simp
  qed
qed

lemma safe_step: "(\<And>w. \<exists>ms. emitted w (f w) ms) \<Longrightarrow> safe (step f)"
  by (auto simp: safe_def step_def)

lemma safe_step_id: "safe (step (\<lambda>w. w))"
  by (rule safe_step) (rule exI [of _ "[]"], simp)

lemma safe_step_log: "safe (step (log l m a))"
  by (rule safe_step) (rule exI [of _ "[]"], simp add: emitted_def log_def emit_def)

lemma safe_step_queue: "safe (step (\<lambda>w. w\<lparr>queue := q\<rparr>))"
  by (rule safe_step) (rule exI [of _ "[]"], simp add: emitted_def)

lemma safe_at_site: "safe (at_site E st)"
  unfolding safe_def at_site_def
  by (auto split: option.splits intro: exI [of _ "[]"])

lemma safe_pool_create: "safe (pool_create E jobs)"
  unfolding safe_def pool_create_def
  by (auto split: option.splits if_splits intro: exI [of _ "[]"])

lemma safe_progress_phase: "unit_worker f \<Longrightarrow> safe (progress_phase E nproc st f xs)"
  unfolding safe_def using progress_phase_any by blast

lemma safe_for_each:
  assumes "\<And>x w r w'. f x w = (r, w') \<Longrightarrow> grows w w' []"
  shows "safe (for_each f xs)"
  unfolding safe_def
proof (intro allI impI)
  fix w r w'
  assume "for_each f xs w = (r, w')"
  then show "r \<noteq> Blocked \<and> (\<exists>ms. emitted w w' ms)"
  proof (induction xs arbitrary: w)
    case Nil
    then show ?case by (auto intro: exI [of _ "[]"])
  next
    case (Cons x xs)
    obtain r1 w1 where f: "f x w = (r1, w1)" by (cases "f x w")
    from assms [OF f] have e1: "emitted w w1 []" by (rule grows_emitted)
    show ?case
    proof (cases r1)
      case (Inl e)
      with Cons.prems f e1 show ?thesis by auto
    next
      case (Inr u)
      with Cons.prems f have "for_each f xs w1 = (r, w')" by simp
      from Cons.IH [OF this] obtain ms where "r \<noteq> Blocked" "emitted w1 w' ms" by blast
      with emitted_trans [OF e1] show ?thesis by blast
    qed
  qed
qed

lemma unit_worker_scan: "unit_worker (noncached_images E)"
  unfolding unit_worker_def
proof (intro allI)
  fix x w
  obtain r w' where n: "noncached_images E x w = (r, w')"
    by (cases "noncached_images E x w")
  from noncached_images_grows [OF n] n
  show "case noncached_images E x w of
          (Inl e, w') \<Rightarrow> grows w w' [] | (Inr y, w') \<Rightarrow> grows w w' [Some 1]"
    by (auto split: sum.splits)
qed

lemma unit_worker_render: "unit_worker (render_thumbnails E)"
  unfolding unit_worker_def
proof (intro allI)
  fix x w
  obtain r w' where n: "render_thumbnails E x w = (r, w')"
    by (cases "render_thumbnails E x w")
  from render_thumbnails_grows [OF n] n
  show "case render_thumbnails E x w of
          (Inl e, w') \<Rightarrow> grows w w' [] | (Inr y, w') \<Rightarrow> grows w w' [Some 1]"
    by (auto simp: grows_def split: sum.splits)
qed

lemma safe_pool_body: "safe (pool_body E nproc imgs)"
  unfolding pool_body_def Let_def
  by (intro safe_then_do safe_step_log safe_progress_phase unit_worker_scan)
    (auto intro!: safe_then_do safe_step_log safe_progress_phase unit_worker_render
      safe_step_id)

lemma safe_videos: "safe (for_each (render_video E) vids)"
  by (rule safe_for_each) (rule render_video_grows)

lemma safe_audios: "safe (for_each (reencode_audio E) auds)"
  by (rule safe_for_each) (rule reencode_audio_grows)

lemma safe_if: "safe a \<Longrightarrow> safe b \<Longrightarrow> safe (if c then a else b)"
  by simp

lemma safe_main_pipeline: "safe (main_pipeline E jobs imgs vids auds)"
  unfolding main_pipeline_def
  by (intro safe_then_do safe_at_site safe_step_queue safe_pool_create safe_pool_body
      safe_if safe_videos safe_audios safe_step_id)

lemma main_build_flush:
  assumes "main_build E jobs imgs vids auds w = (r, w')"
  shows "r \<noteq> Blocked
    \<and> (\<exists>evs. events w' = events w @ evs @ [Flush] \<and> Flush \<notin> set evs)"
proof -
  obtain r1 w1 where mp: "main_pipeline E jobs imgs vids auds w = (r1, w1)"
    by (cases "main_pipeline E jobs imgs vids auds w")
  from safeD [OF safe_main_pipeline mp] obtain ms where
    nb: "r1 \<noteq> Blocked" and e: "emitted w w1 ms" by blast
  from e obtain evs where evs: "events w1 = events w @ evs" "Flush \<notin> set evs"
    by (auto simp: emitted_def)
  obtain r2 w2 where cd: "cache_dump E w1 = (r2, w2)" by (cases "cache_dump E w1")
  then have ev2: "events w2 = events w1 @ [Flush]"
    by (auto simp: cache_dump_def emit_def split: option.splits)
  from assms mp cd nb have "w' = w2" and "r \<noteq> Blocked"
    by (auto simp: main_build_def try_finally_def split: outcome.splits sum.splits)
  with evs ev2 show ?thesis by simp
qed

lemma length_flagged: "length (flagged rs) \<le> length rs"
  by (induction rs rule: flagged.induct) simp_all

lemma for_each_emitted:
  assumes "\<And>x w r w'. f x w = (r, w') \<Longrightarrow> grows w w' []"
  shows "for_each f xs w = (r, w') \<Longrightarrow> emitted w w' []"
proof (induction xs arbitrary: w)
  case Nil
  then show ?case by auto
next
  case (Cons x xs)
  obtain r1 w1 where f: "f x w = (r1, w1)" by (cases "f x w")
  from assms [OF f] have e1: "emitted w w1 []" by (rule grows_emitted)
  show ?case
  proof (cases r1)
    case (Inl e)
    with Cons.prems f e1 show ?thesis by auto
  next
    case (Inr u)
    with Cons.prems f have "for_each f xs w1 = (r, w')" by simp
    from emitted_trans [OF e1 Cons.IH [OF this]] show ?thesis by simp
  qed
qed

lemma pool_body_returned:
  assumes pb: "pool_body E nproc imgs w = (Returned u, w')"
    and q: "queue w = []"
  shows "\<exists>k. k \<le> length imgs
     \<and> emitted w w'
         (replicate (length imgs) (Some 1) @ [None]
          @ (if k = 0 then [] else replicate k (Some 1) @ [None]))"
proof -
  let ?w0 = "log LInfo ''Generating list of thumbnails to create...'' [] w"
  have e0: "emitted w ?w0 []" by (simp add: emitted_def log_def emit_def)
  have q0: "queue ?w0 = []" by (simp add: log_def emit_def q)
  obtain r1 w1 where ph: "progress_phase E nproc PoolMapScan (noncached_images E) imgs ?w0 = (r1, w1)"
    by (cases "progress_phase E nproc PoolMapScan (noncached_images E) imgs ?w0")
  from pb ph obtain rs where r1: "r1 = Returned rs"
    by (cases r1) (auto simp: pool_body_def then_do_def step_def)
  from progress_phase_returned [OF unit_worker_scan ph [unfolded r1] q0]
  have e1: "emitted ?w0 w1 (replicate (length imgs) (Some 1) @ [None])"
    and q1: "queue w1 = []" and len: "length rs = length imgs" by simp_all
  from emitted_trans [OF e0 e1]
  have e01: "emitted w w1 (replicate (length imgs) (Some 1) @ [None])" by simp
  show ?thesis
  proof (cases "flagged rs = []")
    case True
    with pb ph r1 have "w' = w1"
      by (simp add: pool_body_def then_do_def step_def Let_def)
    with e01 show ?thesis by (intro exI [of _ 0]) simp
  next
    case False
    let ?w2 = "log LInfo ''Generating thumbnails...'' [] w1"
    have e2: "emitted w1 ?w2 []" by (simp add: emitted_def log_def emit_def)
    have q2: "queue ?w2 = []" by (simp add: log_def emit_def q1)
    obtain r3 w3 where ph2: "progress_phase E nproc PoolMapRender (render_thumbnails E)
        (flagged rs) ?w2 = (r3, w3)"
      by (cases "progress_phase E nproc PoolMapRender (render_thumbnails E) (flagged rs) ?w2")
    from pb ph r1 False ph2 obtain ys where r3: "r3 = Returned ys" and w': "w' = w3"
      by (cases r3) (auto simp: pool_body_def then_do_def step_def Let_def)
    from progress_phase_returned [OF unit_worker_render ph2 [unfolded r3] q2]
    have e3: "emitted ?w2 w3 (replicate (length (flagged rs)) (Some 1) @ [None])" by simp
    from emitted_trans [OF e01 emitted_trans [OF e2 e3]] False
    have "emitted w w'
         (replicate (length imgs) (Some 1) @ [None]
          @ (if length (flagged rs) = 0 then []
             else replicate (length (flagged rs)) (Some 1) @ [None]))"
      by (simp add: w')
    moreover have "length (flagged rs) \<le> length imgs"
      using length_flagged [of rs] len by simp
    ultimately show ?thesis by blast
  qed
qed

lemma main_pipeline_returned:
  assumes mp: "main_pipeline E jobs imgs vids auds w = (Returned u, w')"
  shows "\<exists>k. k \<le> length imgs
     \<and> emitted w w'
         (replicate (length imgs) (Some 1) @ [None]
          @ (if k = 0 then [] else replicate k (Some 1) @ [None]))"
proof -
  let ?w0 = "w\<lparr>queue := []\<rparr>"
  have e0: "emitted w ?w0 []" by (simp add: emitted_def)
  from mp obtain nproc w1 w2 where
    pb: "pool_body E nproc imgs ?w0 = (Returned (), w1)"
    and vs: "(if length vids \<noteq> 0 then for_each (render_video E) vids else step (\<lambda>w. w)) w1
              = (Returned (), w2)"
    and as: "(if length auds \<noteq> 0 then for_each (reencode_audio E) auds else step (\<lambda>w. w)) w2
              = (Returned u, w')"
    by (auto simp: main_pipeline_def then_do_def at_site_def step_def pool_create_def
        split: option.splits outcome.splits if_splits prod.splits)
  from pool_body_returned [OF pb] obtain k where k: "k \<le> length imgs"
    and e1: "emitted ?w0 w1
         (replicate (length imgs) (Some 1) @ [None]
          @ (if k = 0 then [] else replicate k (Some 1) @ [None]))"
    by auto
  from vs have e2: "emitted w1 w2 []"
    by (auto simp: step_def split: if_splits
        intro: for_each_emitted [of "render_video E"] render_video_grows)
  from as have e3: "emitted w2 w' []"
    by (auto simp: step_def split: if_splits
        intro: for_each_emitted [of "reencode_audio E"] reencode_audio_grows)
  from emitted_trans [OF emitted_trans [OF e0 e1] emitted_trans [OF e2 e3]] k
  show ?thesis by (intro exI [of _ k]) simp
qed

lemma main_build_returned:
  assumes mb: "main_build E jobs imgs vids auds w = (Returned u, w')"
  shows "\<exists>evs k. k \<le> length imgs \<and> events w' = events w @ evs @ [Flush]
     \<and> Flush \<notin> set evs
     \<and> puts evs = replicate (length imgs) (Some 1) @ [None]
          @ (if k = 0 then [] else replicate k (Some 1) @ [None])"
proof -
  obtain r1 w1 where mp: "main_pipeline E jobs imgs vids auds w = (r1, w1)"
    by (cases "main_pipeline E jobs imgs vids auds w")
  obtain r2 w2 where cd: "cache_dump E w1 = (r2, w2)" by (cases "cache_dump E w1")
  then have ev2: "events w2 = events w1 @ [Flush]"
    by (auto simp: cache_dump_def emit_def split: option.splits)
  from mb mp cd have "r1 = Returned u" and w': "w' = w2"
    by (auto simp: main_build_def try_finally_def split: outcome.splits sum.splits)
  with main_pipeline_returned mp obtain k where k: "k \<le> length imgs"
    and e: "emitted w w1
         (replicate (length imgs) (Some 1) @ [None]
          @ (if k = 0 then [] else replicate k (Some 1) @ [None]))"
    by blast
  from e obtain evs where "events w1 = events w @ evs" "Flush \<notin> set evs"
    "puts evs = replicate (length imgs) (Some 1) @ [None]
          @ (if k = 0 then [] else replicate k (Some 1) @ [None])"
    by (auto simp: emitted_def)
  with k ev2 w' show ?thesis by (intro exI [of _ evs] exI [of _ k]) simp
qed


text \<open>
  C7. However the \<open>try\<close> block of \<open>main\<close> ends (it returns, or an exception is raised
  in the coordinator, in a worker of the scan or of the render phase, or by an encoder
  of the video or audio phase, an interruption among them), the build never blocks, and
  \<open>cache_dump\<close> is executed exactly once, as the very last action.
\<close>

theorem main_build_flushes_once:
  "fst (main_build E jobs imgs vids auds w) \<noteq> Blocked
   \<and> (\<exists>evs. events (snd (main_build E jobs imgs vids auds w)) = events w @ evs @ [Flush]
          \<and> Flush \<notin> set evs)"
  using main_build_flush [of E jobs imgs vids auds w
      "fst (main_build E jobs imgs vids auds w)" "snd (main_build E jobs imgs vids auds w)"]
  by simp

section \<open>Progress\<close>

lemma chunks_Cons: "0 < c \<Longrightarrow> chunks c (x # xs) = take c (x # xs) # chunks c (drop c (x # xs))"
  by (subst chunks.simps) simp

lemmas main_simps =
  main_build_def main_pipeline_def pool_body_def progress_phase_def pool_map_def
  pool_create_def then_do_def step_def at_site_def try_finally_def process_join_def
  cache_dump_def chunksize_def chunks_Cons noncached_images_def

lemma noncached_images_unit:
  assumes "noncached_images E base w = (Inr r, w')"
  shows "\<exists>evs. events w' = events w @ evs @ [Put (Some 1)] \<and> puts evs = []
            \<and> queue w' = queue w @ [Some 1]"
proof -
  from assms obtain img where op: "env_open E w (a_filepath base) = Inr img"
    by (auto simp: noncached_images_def split: sum.splits)
  from assms show ?thesis
    unfolding noncached_images_eq [OF op]
    by (intro exI [of _ "ImageOpen (a_filepath base)
          # map (\<lambda>t. Check (a_filepath base) (build_path (v_filepath t))
                   (needs_to_be_generated w (a_filepath base) (build_path (v_filepath t))
                      (strip_exif (a_options base) (image_params img (a_options base)))))
              (until_first
                 (\<lambda>t. needs_to_be_generated w (a_filepath base) (build_path (v_filepath t))
                        (strip_exif (a_options base) (image_params img (a_options base))))
                 (dict_values (a_thumbnails base)))"]) auto
qed

text \<open>
  C9, as the source has it. A scan or render worker that returns normally on an item
  has put exactly one unit on the progress queue, as its last action; a worker that
  raises has put none (the scan worker then has done nothing at all). The consumer,
  having read \<open>n\<close> units and then the end of the stream, terminates after \<open>n\<close>
  updates. In a build that returns, the messages put are one unit for every image of
  the scan phase followed by one end of stream, and then, if the render phase ran, one
  unit for every image it was given followed by one end of stream: the end of the
  stream is put once per phase, after \<open>pool.map\<close> of the phase has returned.
\<close>

theorem progress_units:
  "(\<forall>r w'. noncached_images E base w = (Inr r, w') \<longrightarrow>
      (\<exists>evs. events w' = events w @ evs @ [Put (Some 1)] \<and> puts evs = []
         \<and> queue w' = queue w @ [Some 1]))
   \<and> (\<forall>e w'. noncached_images E base w = (Inl e, w') \<longrightarrow> w' = w)
   \<and> (\<forall>w'. render_thumbnails E base w = (Inr (), w') \<longrightarrow>
      (\<exists>evs. events w' = events w @ evs @ [Put (Some 1)] \<and> puts evs = []
         \<and> queue w' = queue w @ [Some 1]))
   \<and> (\<forall>e w'. render_thumbnails E base w = (Inl e, w') \<longrightarrow>
      (\<exists>evs. events w' = events w @ evs \<and> puts evs = [] \<and> queue w' = queue w))
   \<and> handle_pbar (replicate n (Some 1) @ None # rest) = Some (n, rest)
   \<and> (\<forall>w'. main_build E jobs imgs vids auds w = (Returned (), w') \<longrightarrow>
      (\<exists>evs k. k \<le> length imgs \<and> events w' = events w @ evs @ [Flush]
         \<and> puts evs = replicate (length imgs) (Some 1) @ [None]
              @ (if k = 0 then [] else replicate k (Some 1) @ [None])))"
proof (intro conjI allI impI)
  fix r w' assume "noncached_images E base w = (Inr r, w')"
  then show "\<exists>evs. events w' = events w @ evs @ [Put (Some 1)] \<and> puts evs = []
         \<and> queue w' = queue w @ [Some 1]"
    by (rule noncached_images_unit)
next
  fix e w' assume "noncached_images E base w = (Inl e, w')"
  from noncached_images_grows [OF this] show "w' = w" by simp
next
  fix w' assume "render_thumbnails E base w = (Inr (), w')"
  from render_thumbnails_grows [OF this]
  show "\<exists>evs. events w' = events w @ evs @ [Put (Some 1)] \<and> puts evs = []
         \<and> queue w' = queue w @ [Some 1]"
    by auto
next
  fix e w' assume "render_thumbnails E base w = (Inl e, w')"
  from render_thumbnails_grows [OF this]
  show "\<exists>evs. events w' = events w @ evs \<and> puts evs = [] \<and> queue w' = queue w"
    by (auto simp: grows_def)
next
  show "handle_pbar (replicate n (Some 1) @ None # rest) = Some (n, rest)"
    by (rule handle_pbar_units)
next
  fix w' assume "main_build E jobs imgs vids auds w = (Returned (), w')"
  from main_build_returned [OF this]
  show "\<exists>evs k. k \<le> length imgs \<and> events w' = events w @ evs @ [Flush]
         \<and> puts evs = replicate (length imgs) (Some 1) @ [None]
              @ (if k = 0 then [] else replicate k (Some 1) @ [None])"
    by blast
qed

theorem progress_units_witness:
  "\<exists>evs k. k \<le> length [photo_two_variants]
     \<and> events (snd (main_build env_ok None [photo_two_variants] [] [] world_cold))
         = events world_cold @ evs @ [Flush]
     \<and> puts evs = replicate (length [photo_two_variants]) (Some 1) @ [None]
          @ (if k = 0 then [] else replicate k (Some 1) @ [None])"
proof -
  have "fst (main_build env_ok None [photo_two_variants] [] [] world_cold) = Returned ()"
    by (simp add: main_simps render_simps run_simps enlarge_buffer_def
        env_ok_def photo_two_variants_def world_cold_def img_plain_def)
  then have run: "main_build env_ok None [photo_two_variants] [] [] world_cold
      = (Returned (), snd (main_build env_ok None [photo_two_variants] [] [] world_cold))"
    by (simp add: prod_eq_iff)
  from progress_units [of env_ok photo_two_variants world_cold 0 "[]" None
      "[photo_two_variants]" "[]" "[]"] run
  show ?thesis by blast
qed


text \<open>
  C9 as stated fails for an item on which the worker fails: the render worker whose
  saves raise puts no unit on the queue, and neither does the scan worker whose source
  cannot be opened.
\<close>

theorem failed_item_puts_no_unit_counterexample:
  "fst (render_thumbnails env_disk_full photo_width_only world_cold) = Inl OSError
   \<and> puts (events (snd (render_thumbnails env_disk_full photo_width_only world_cold))) = []
   \<and> queue (snd (render_thumbnails env_disk_full photo_width_only world_cold)) = []
   \<and> noncached_images env_unreadable photo_width_only world_cold = (Inl OSError, world_cold)"
  by (simp add: render_simps run_simps enlarge_buffer_def env_disk_full_def env_unreadable_def
      env_ok_def photo_width_only_def world_cold_def img_plain_def noncached_images_def)

section \<open>The retry of a failed save\<close>

lemma render_thumbnail_retry:
  assumes needed: "needs_to_be_generated w (a_filepath base) (build_path (v_filepath t)) p"
    and w0: "w0 = emit (Check (a_filepath base) (build_path (v_filepath t)) True) w"
    and copied: "env_copy E w0 img = None"
    and resized: "resize E img (v_size t) w0 = Inr (im, Some wd, Some ht)"
    and dims: "wd \<noteq> 0" "ht \<noteq> 0"
    and w1: "w1 = log LDebug ''(%s) Creating thumbnail %s: size=%s''
                    [a_filepath base, build_path (v_filepath t)] w0"
    and first: "env_save E w1 im (build_path (v_filepath t)) p = SaveFailed OSError st"
    and w2: "w2 = enlarge_buffer im wd ht
                    (log LWarning ''(%s) Failed to save %s.''
                       [a_filepath base, build_path (v_filepath t), a_filepath base]
                       (emit (Save (build_path (v_filepath t)) im False)
                          (w1\<lparr>fs := (fs w1)(build_path (v_filepath t) := st)\<rparr>)))"
  shows "render_thumbnail E base img t p w =
     (case env_save E w2 im (build_path (v_filepath t)) p of
        SaveOk m \<Rightarrow>
          (Inr p,
           cache_picture (a_filepath base) (build_path (v_filepath t)) p
             (log LDebug ''(%s) Done creating thumbnail %s: size=%s''
                [a_filepath base, build_path (v_filepath t)]
                (emit (Save (build_path (v_filepath t)) im True)
                   (w2\<lparr>fs := (fs w2)(build_path (v_filepath t) \<mapsto> m)\<rparr>))))
      | SaveFailed e st' \<Rightarrow>
          (Inl e, emit (Save (build_path (v_filepath t)) im False)
                    (w2\<lparr>fs := (fs w2)(build_path (v_filepath t) := st')\<rparr>)))"
  using needed copied resized dims first
  unfolding w0 w1 w2
  by (simp add: render_thumbnail_def check_cache_def Let_def save_thumbnail_def
      save_image_def falsy_dim_def split: save_result.splits)

lemma render_thumbnails_raises:
  assumes "env_open E (log LDebug ''(%s) Rendering thumbnails'' [a_filepath base] wb)
             (a_filepath base) = Inr img0"
    and "auto_orient E base img0 (image_params img0 (a_options base))
           (emit (ImageOpen (a_filepath base))
              (log LDebug ''(%s) Rendering thumbnails'' [a_filepath base] wb))
         = (Inr (img1, p0), wl)"
    and "render_loop E base img1 (dict_values (a_thumbnails base))
           (strip_exif (a_options base) p0) wl = (Inl e, w')"
  shows "render_thumbnails E base wb = (Inl e, w')"
  using assms by (simp add: render_thumbnails_def Let_def)

text \<open>
  C4, as the source has it. A variant that needs to be generated is copied and resized,
  and its first \<open>im.save\<close> raises \<open>OSError\<close>. Then one warning is logged,
  \<open>ImageFile.MAXBLOCK\<close> is raised to at least four times the product of the target
  dimensions plus the length of the ICC profile plus ten, and the save is tried once
  more. If this retry succeeds, the variant is recorded in the cache store, no longer
  needs to be generated, and the loop goes on with the asset's next variant. If the
  retry fails too, its exception leaves the loop: the remaining variants are skipped,
  nothing is recorded and nothing more is logged; and an exception that leaves the loop
  leaves the render worker.
\<close>

theorem save_failure_retried_once:
  assumes needed: "needs_to_be_generated w (a_filepath base) (build_path (v_filepath t)) p"
    and w0: "w0 = emit (Check (a_filepath base) (build_path (v_filepath t)) True) w"
    and copied: "env_copy E w0 img = None"
    and resized: "resize E img (v_size t) w0 = Inr (im, Some wd, Some ht)"
    and dims: "wd \<noteq> 0" "ht \<noteq> 0"
    and w1: "w1 = log LDebug ''(%s) Creating thumbnail %s: size=%s''
                    [a_filepath base, build_path (v_filepath t)] w0"
    and first: "env_save E w1 im (build_path (v_filepath t)) p = SaveFailed OSError st"
    and w2: "w2 = enlarge_buffer im wd ht
                    (log LWarning ''(%s) Failed to save %s.''
                       [a_filepath base, build_path (v_filepath t), a_filepath base]
                       (emit (Save (build_path (v_filepath t)) im False)
                          (w1\<lparr>fs := (fs w1)(build_path (v_filepath t) := st)\<rparr>)))"
  shows "maxblock w2 = max (maxblock w) ((4 * wd * ht) + int (img_icc_len im) + 10)
    \<and> events w2 = events w @
        [Check (a_filepath base) (build_path (v_filepath t)) True,
         Log LDebug ''(%s) Creating thumbnail %s: size=%s''
           [a_filepath base, build_path (v_filepath t)],
         Save (build_path (v_filepath t)) im False,
         Log LWarning ''(%s) Failed to save %s.''
           [a_filepath base, build_path (v_filepath t), a_filepath base]]
    \<and> (\<forall>m. env_save E w2 im (build_path (v_filepath t)) p = SaveOk m \<longrightarrow>
          (\<exists>w3. render_loop E base img (t # rest) p w = render_loop E base img rest p w3
             \<and> events w3 = events w2 @
                 [Save (build_path (v_filepath t)) im True,
                  Log LDebug ''(%s) Done creating thumbnail %s: size=%s''
                    [a_filepath base, build_path (v_filepath t)],
                  Record (a_filepath base) (build_path (v_filepath t))]
             \<and> maxblock w3 = maxblock w2
             \<and> \<not> needs_to_be_generated w3 (a_filepath base) (build_path (v_filepath t)) p))
    \<and> (\<forall>e st'. env_save E w2 im (build_path (v_filepath t)) p = SaveFailed e st' \<longrightarrow>
          (\<exists>w4. render_loop E base img (t # rest) p w = (Inl e, w4)
             \<and> events w4 = events w2 @ [Save (build_path (v_filepath t)) im False]
             \<and> cache w4 = cache w \<and> queue w4 = queue w))
    \<and> (\<forall>wb img0 img1 p0 wl e w'.
          env_open E (log LDebug ''(%s) Rendering thumbnails'' [a_filepath base] wb)
            (a_filepath base) = Inr img0 \<longrightarrow>
          auto_orient E base img0 (image_params img0 (a_options base))
            (emit (ImageOpen (a_filepath base))
               (log LDebug ''(%s) Rendering thumbnails'' [a_filepath base] wb))
            = (Inr (img1, p0), wl) \<longrightarrow>
          render_loop E base img1 (dict_values (a_thumbnails base))
            (strip_exif (a_options base) p0) wl = (Inl e, w') \<longrightarrow>
          render_thumbnails E base wb = (Inl e, w'))"
proof -
  let ?src = "a_filepath base" and ?fp = "build_path (v_filepath t)"
  note rt = render_thumbnail_retry [OF needed w0 copied resized dims w1 first w2]
  have mb: "maxblock w2 = max (maxblock w) ((4 * wd * ht) + int (img_icc_len im) + 10)"
    by (simp add: w2 w1 w0 enlarge_buffer_def log_def emit_def)
  have ev: "events w2 = events w @
        [Check ?src ?fp True,
         Log LDebug ''(%s) Creating thumbnail %s: size=%s'' [?src, ?fp],
         Save ?fp im False,
         Log LWarning ''(%s) Failed to save %s.'' [?src, ?fp, ?src]]"
    by (simp add: w2 w1 w0 enlarge_buffer_def log_def emit_def)
  have c2: "cache w2 = cache w" "queue w2 = queue w"
    by (simp_all add: w2 w1 w0 enlarge_buffer_def log_def emit_def)
  have ok: "\<exists>w3. render_loop E base img (t # rest) p w = render_loop E base img rest p w3
             \<and> events w3 = events w2 @
                 [Save ?fp im True,
                  Log LDebug ''(%s) Done creating thumbnail %s: size=%s'' [?src, ?fp],
                  Record ?src ?fp]
             \<and> maxblock w3 = maxblock w2
             \<and> \<not> needs_to_be_generated w3 ?src ?fp p"
    if "env_save E w2 im ?fp p = SaveOk m" for m
    using rt that
    by (intro exI [of _ "cache_picture ?src ?fp p
             (log LDebug ''(%s) Done creating thumbnail %s: size=%s'' [?src, ?fp]
                (emit (Save ?fp im True) (w2\<lparr>fs := (fs w2)(?fp \<mapsto> m)\<rparr>)))"])
      (simp add: cache_picture_def log_def emit_def needs_to_be_generated_def
        fingerprint_of_def)
  have bad: "\<exists>w4. render_loop E base img (t # rest) p w = (Inl e, w4)
             \<and> events w4 = events w2 @ [Save ?fp im False]
             \<and> cache w4 = cache w \<and> queue w4 = queue w"
    if "env_save E w2 im ?fp p = SaveFailed e st'" for e st'
    using rt that c2
    by (intro exI [of _ "emit (Save ?fp im False) (w2\<lparr>fs := (fs w2)(?fp := st')\<rparr>)"])
      (simp add: emit_def)
  from mb ev ok bad render_thumbnails_raises show ?thesis
    by (intro conjI allI impI) blast+
qed

theorem save_failure_retried_once_witness:
  "\<exists>w3. render_loop env_small_buffer photo_width_only img_plain [thumb_800]
            (image_params img_plain Map.empty) world_cold
          = (Inr (image_params img_plain Map.empty), w3)
     \<and> saves (events w3) =
          [(''build/a-800.png'', [Thumbnail 800 65596], False),
           (''build/a-800.png'', [Thumbnail 800 65596], True)]
     \<and> records (events w3) = [(''a.png'', ''build/a-800.png'')]
     \<and> maxblock w3 = 209907210
     \<and> \<not> needs_to_be_generated w3 ''a.png'' ''build/a-800.png''
           (image_params img_plain Map.empty)"
proof -
  let ?p = "image_params img_plain Map.empty"
  let ?im = "img_plain\<lparr>img_ops := [Thumbnail 800 65596]\<rparr>"
  let ?w0 = "emit (Check (a_filepath photo_width_only) (build_path (v_filepath thumb_800)) True)
               world_cold"
  let ?w1 = "log LDebug ''(%s) Creating thumbnail %s: size=%s''
               [a_filepath photo_width_only, build_path (v_filepath thumb_800)] ?w0"
  let ?w2 = "enlarge_buffer ?im 800 65596
               (log LWarning ''(%s) Failed to save %s.''
                  [a_filepath photo_width_only, build_path (v_filepath thumb_800),
                   a_filepath photo_width_only]
                  (emit (Save (build_path (v_filepath thumb_800)) ?im False)
                     (?w1\<lparr>fs := (fs ?w1)(build_path (v_filepath thumb_800) := None)\<rparr>)))"
  have fp: "build_path (v_filepath thumb_800) = ''build/a-800.png''"
    and src: "a_filepath photo_width_only = ''a.png''"
    by (simp_all add: thumb_800_def build_path_def photo_width_only_def)
  have needed: "needs_to_be_generated world_cold (a_filepath photo_width_only)
                  (build_path (v_filepath thumb_800)) ?p"
    by (simp add: needs_to_be_generated_def world_cold_def)
  have copied: "env_copy env_small_buffer ?w0 img_plain = None"
    by (simp add: env_small_buffer_def env_ok_def)
  have resized: "resize env_small_buffer img_plain (v_size thumb_800) ?w0
                   = Inr (?im, Some 800, Some 65596)"
    by (simp add: resize_def thumb_800_def falsy_dim_def IGNORE_DIM_def
        env_small_buffer_def env_ok_def img_plain_def)
  have first: "env_save env_small_buffer ?w1 ?im (build_path (v_filepath thumb_800)) ?p
                 = SaveFailed OSError None"
    by (simp add: env_small_buffer_def env_ok_def log_def emit_def world_cold_def)
  have mb2: "maxblock ?w2 = 209907210"
    by (simp add: enlarge_buffer_def log_def emit_def world_cold_def img_plain_def)
  then have second: "env_save env_small_buffer ?w2 ?im (build_path (v_filepath thumb_800)) ?p
                 = SaveOk 7"
    by (simp add: env_small_buffer_def env_ok_def)
  have d1: "(800::int) \<noteq> 0" and d2: "(65596::int) \<noteq> 0" by simp_all
  note inst = save_failure_retried_once [OF needed refl copied resized d1 d2 refl first refl,
      of "[]"]
  note ev2 = inst [THEN conjunct2, THEN conjunct1]
  note retry = inst [THEN conjunct2, THEN conjunct2, THEN conjunct1, THEN spec, of 7,
      THEN mp, OF second]
  from retry obtain w3 where
    loop: "render_loop env_small_buffer photo_width_only img_plain [thumb_800] ?p world_cold
             = render_loop env_small_buffer photo_width_only img_plain [] ?p w3"
    and ev3: "events w3 = events ?w2 @
                 [Save (build_path (v_filepath thumb_800)) ?im True,
                  Log LDebug ''(%s) Done creating thumbnail %s: size=%s''
                    [a_filepath photo_width_only, build_path (v_filepath thumb_800)],
                  Record (a_filepath photo_width_only) (build_path (v_filepath thumb_800))]"
    and mb3: "maxblock w3 = maxblock ?w2"
    and cached: "\<not> needs_to_be_generated w3 (a_filepath photo_width_only)
                     (build_path (v_filepath thumb_800)) ?p"
    by blast
  have loop': "render_loop env_small_buffer photo_width_only img_plain [thumb_800] ?p world_cold
             = (Inr ?p, w3)"
    unfolding loop by (simp only: render_loop.simps)
  have ev0: "events world_cold = []" by (simp add: world_cold_def)
  have sv: "saves (events w3) =
          [(''build/a-800.png'', [Thumbnail 800 65596], False),
           (''build/a-800.png'', [Thumbnail 800 65596], True)]"
    and rc: "records (events w3) = [(''a.png'', ''build/a-800.png'')]"
    unfolding ev3 ev2 ev0 by (simp_all add: fp src)
  have mb: "maxblock w3 = 209907210" unfolding mb3 by (rule mb2)
  from cached have nn: "\<not> needs_to_be_generated w3 ''a.png'' ''build/a-800.png'' ?p"
    unfolding fp src .
  from loop' sv rc mb nn show ?thesis by (intro exI [of _ w3] conjI)
qed

text \<open>
  C4 as stated fails where the retry fails too: the worker raises the exception of the
  retry right after the second save, with nothing logged after it and the second
  variant never checked; \<open>pool.map\<close> raises it in the coordinator, so the build ends
  with that exception and the video that follows is never encoded.
\<close>

theorem failed_retry_aborts_counterexample:
  "fst (render_thumbnails env_disk_full photo_two_variants world_cold) = Inl OSError
   \<and> checks (events (snd (render_thumbnails env_disk_full photo_two_variants world_cold)))
       = [(''build/a-100.png'', True)]
   \<and> saves (events (snd (render_thumbnails env_disk_full photo_two_variants world_cold)))
       = [(''build/a-100.png'', [Thumbnail 100 65596], False),
          (''build/a-100.png'', [Thumbnail 100 65596], False)]
   \<and> last (events (snd (render_thumbnails env_disk_full photo_two_variants world_cold)))
       = Save ''build/a-100.png'' (img_plain\<lparr>img_ops := [Thumbnail 100 65596]\<rparr>) False
   \<and> fst (main_build env_disk_full None [photo_two_variants] [video_two_thumbnails] []
            world_cold) = Raised OSError
   \<and> runs (events (snd (main_build env_disk_full None [photo_two_variants]
            [video_two_thumbnails] [] world_cold))) = []"
  by (simp add: main_simps render_simps run_simps enlarge_buffer_def env_disk_full_def
      env_ok_def photo_two_variants_def world_cold_def img_plain_def)


section \<open>Runs on the example inputs\<close>

text \<open>
  C5, where the code departs from it. A thumbnail of target size 800 x 600, both
  dimensions set, is regenerated without any call of \<open>im.thumbnail\<close>: the image saved
  is the unresized copy of the source. (With the height unset the copy is resized
  within 800 x 65596 before it is saved.)
\<close>

theorem render_thumbnails_both_dims_not_resized:
  "fst (render_thumbnails env_ok photo_both_dims world_cold) = Inr ()
   \<and> saves (events (snd (render_thumbnails env_ok photo_both_dims world_cold)))
       = [(''build/a-800x600.png'', [], True)]
   \<and> saves (events (snd (render_thumbnails env_ok photo_width_only world_cold)))
       = [(''build/a-800.png'', [Thumbnail 800 65596], True)]"
  by (simp add: render_simps run_simps env_ok_def photo_both_dims_def
      photo_width_only_def world_cold_def img_plain_def)

text \<open>
  C2, where the code departs from it. A video with two thumbnails, neither cached: the
  command exits with status zero, and both records are stored under the destination
  path of the last thumbnail; the first thumbnail has no cache entry.
\<close>

theorem render_video_records_last_path:
  "fst (render_video env_ok video_two_thumbnails world_cold) = Inr ()
   \<and> records (events (snd (render_video env_ok video_two_thumbnails world_cold)))
       = [(''v.mp4'', ''build/v-2.jpg''), (''v.mp4'', ''build/v-2.jpg'')]
   \<and> cache (snd (render_video env_ok video_two_thumbnails world_cold))
         (''v.mp4'', ''build/v-1.jpg'') = None"
  by (simp add: render_video_def video_basecmd_def dim_or_minus_one_def run_simps env_ok_def
      video_two_thumbnails_def world_cold_def)

text \<open>
  C8, where the code departs from it. An audio file with two re-encodes, the first
  cached and the second not: the function returns at the first, the second is neither
  checked nor encoded, and it still needs to be generated.
\<close>

theorem reencode_audio_returns_at_cached:
  "fst (reencode_audio env_ok audio_two_reencodes world_first_reencoded) = Inr ()
   \<and> checks (events (snd (reencode_audio env_ok audio_two_reencodes world_first_reencoded)))
       = [(''build/s-1.mp3'', False)]
   \<and> runs (events (snd (reencode_audio env_ok audio_two_reencodes world_first_reencoded))) = []
   \<and> needs_to_be_generated
         (snd (reencode_audio env_ok audio_two_reencodes world_first_reencoded))
         ''s.ogg'' ''build/s-2.mp3'' Map.empty"
  by (simp add: reencode_audio_def audio_basecmd_def run_simps env_ok_def
      audio_two_reencodes_def world_first_reencoded_def world_cold_def)

end
